(* ===== verification/Prelude.thy ===== *)
theory Prelude
  imports Main "HOL-Library.Product_Lexorder" "HOL-Library.List_Lexorder" "HOL-Library.Char_ord"
    "HOL-Library.Multiset"
begin

text \<open>
  What the components share: Go errors and results, machine integers written out as
  wrap-around on \<open>int\<close> and \<open>nat\<close>, Go's truncated division, a JSON blob in a store, and
  the contract of the parameter blob every module keeps (\<open>SetParams\<close>, \<open>GetParams\<close>,
  \<open>InitGenesis\<close>, \<open>ExportGenesis\<close>).
\<close>

subsection \<open>Results\<close>

text \<open>A Go function that may fail returns \<open>Inl\<close> of its error or \<open>Inr\<close> of its value.\<close>

datatype go_error = Error string

type_synonym 'a result = "go_error + 'a"
type_synonym addr = string
type_synonym denom = string

named_theorems handler_defs \<open>the definitions a handler unfolds to\<close>

definition is_ok :: "'a result \<Rightarrow> bool" where
  "is_ok r = (case r of Inl _ \<Rightarrow> False | Inr _ \<Rightarrow> True)"

lemma is_ok_simps [simp]: "is_ok (Inr x)" "\<not> is_ok (Inl e)"
  by (simp_all add: is_ok_def)

lemma is_ok_iff: "is_ok r \<longleftrightarrow> (\<exists>x. r = Inr x)"
  by (cases r) auto

text \<open>\<open>if err != nil { return err }\<close>: go on with the value, or stop with the error.\<close>

definition and_then :: "'a result \<Rightarrow> ('a \<Rightarrow> 'b result) \<Rightarrow> 'b result" where
  "and_then r f = (case r of Inl e \<Rightarrow> Inl e | Inr x \<Rightarrow> f x)"

lemma and_then_simps [simp]: "and_then (Inl e) f = Inl e" "and_then (Inr x) f = f x"
  by (simp_all add: and_then_def)

lemma and_then_Inr: "and_then r f = Inr y \<longleftrightarrow> (\<exists>x. r = Inr x \<and> f x = Inr y)"
  by (cases r) auto

lemma and_then_Inl: "and_then r f = Inl e \<longleftrightarrow> r = Inl e \<or> (\<exists>x. r = Inr x \<and> f x = Inl e)"
  by (cases r) auto

text \<open>A check that only fails or passes.\<close>

definition ensure :: "bool \<Rightarrow> go_error \<Rightarrow> unit result" where
  "ensure c e = (if c then Inr () else Inl e)"

lemma ensure_Inr [simp]: "ensure c e = Inr u \<longleftrightarrow> c"
  by (simp add: ensure_def)

subsection \<open>Machine integers\<close>

text \<open>
  \<open>wrap64 x\<close> is what a Go \<open>int64\<close> holds after an operation whose exact result is \<open>x\<close>;
  \<open>u64 n\<close> is the same for \<open>uint64\<close>.
\<close>

definition wrap64 :: "int \<Rightarrow> int" where
  "wrap64 x = (x + 2 ^ 63) mod 2 ^ 64 - 2 ^ 63"

definition u64 :: "nat \<Rightarrow> nat" where
  "u64 n = n mod 2 ^ 64"

lemma wrap64_id: "- (2 ^ 63) \<le> x \<Longrightarrow> x < 2 ^ 63 \<Longrightarrow> wrap64 x = x"
  by (simp add: wrap64_def)

lemma wrap64_bounds: "- (2 ^ 63) \<le> wrap64 x" "wrap64 x < 2 ^ 63"
proof -
  have "0 \<le> (x + 2 ^ 63) mod 2 ^ 64" and "(x + 2 ^ 63) mod 2 ^ 64 < (2 ^ 64 :: int)"
    by (rule pos_mod_sign, simp) (rule pos_mod_bound, simp)
  then show "- (2 ^ 63) \<le> wrap64 x" and "wrap64 x < 2 ^ 63"
    by (simp_all add: wrap64_def)
qed

lemma u64_id: "n < 2 ^ 64 \<Longrightarrow> u64 n = n"
  by (simp add: u64_def)

lemma u64_less: "u64 n < 2 ^ 64"
  by (simp add: u64_def)

lemma u64_le: "u64 n \<le> n"
  by (simp add: u64_def)

text \<open>Go's \<open>/\<close> on integers and \<open>math.Int.Quo\<close> truncate towards zero.\<close>

definition quo :: "int \<Rightarrow> int \<Rightarrow> int" where
  "quo a b = sgn a * sgn b * (\<bar>a\<bar> div \<bar>b\<bar>)"

lemma quo_pos: "0 \<le> a \<Longrightarrow> 0 < b \<Longrightarrow> quo a b = a div b"
  by (cases "a = 0") (simp_all add: quo_def)

lemma quo_nonneg: "0 \<le> a \<Longrightarrow> 0 < b \<Longrightarrow> 0 \<le> quo a b"
  by (simp add: quo_pos pos_imp_zdiv_nonneg_iff)

lemma div_mult_le: "0 < (b::int) \<Longrightarrow> a div b * b \<le> a"
  using minus_mod_eq_div_mult [of a b] pos_mod_sign [of b a] by linarith

lemma quo_le: "0 \<le> a \<Longrightarrow> 0 < b \<Longrightarrow> quo a b * b \<le> a"
  by (simp add: quo_pos div_mult_le)

subsection \<open>JSON blobs in a store\<close>

text \<open>
  A value the modules write with \<open>json.Marshal\<close> is read back with \<open>json.Unmarshal\<close>, which
  gives the value for bytes that \<open>Marshal\<close> wrote and may fail on others.
\<close>

datatype 'p blob = Json 'p | Malformed

definition read_or :: "'p \<Rightarrow> 'p blob option \<Rightarrow> 'p" where
  "read_or d b = (case b of Some (Json p) \<Rightarrow> p | _ \<Rightarrow> d)"

lemma read_or_simps [simp]:
  "read_or d None = d" "read_or d (Some (Json p)) = p" "read_or d (Some Malformed) = d"
  by (simp_all add: read_or_def)

definition read_opt :: "'p blob option \<Rightarrow> 'p option" where
  "read_opt b = (case b of Some (Json p) \<Rightarrow> Some p | _ \<Rightarrow> None)"

lemma read_opt_simps [simp]:
  "read_opt None = None" "read_opt (Some (Json p)) = Some p" "read_opt (Some Malformed) = None"
  by (simp_all add: read_opt_def)

subsection \<open>The contract of a module's parameter store\<close>

text \<open>
  Every module of the repository keeps its parameters as one blob. A client relies on reading
  back what was set, on a later write winning, and on a genesis export giving the imported
  genesis back.
\<close>

locale params_store =
  fixes set_params :: "'s \<Rightarrow> 'p \<Rightarrow> 's"
    and get_params :: "'s \<Rightarrow> 'p"
  assumes get_set: "get_params (set_params s p) = p"
    and set_set: "set_params (set_params s p) q = set_params s q"
begin

lemma export_import: "get_params (set_params s (get_params t)) = get_params t"
  by (rule get_set)

lemma update_params: "get_params (set_params s (f (get_params s))) = f (get_params s)"
  by (rule get_set)

lemma set_params_inj: "set_params s p = set_params s q \<Longrightarrow> p = q"
  by (metis get_set)

end

subsection \<open>Strings and days\<close>

text \<open>\<open>strings.ToLower\<close> on ASCII, which is what the hex addresses the modules lower-case are.\<close>

definition lower_char :: "char \<Rightarrow> char" where
  "lower_char c = (let n = of_char c :: nat in if 65 \<le> n \<and> n \<le> 90 then char_of (n + 32) else c)"

definition ToLower :: "string \<Rightarrow> string" where
  "ToLower s = map lower_char s"

lemma length_ToLower [simp]: "length (ToLower s) = length s"
  by (simp add: ToLower_def)

lemma lower_char_idem: "lower_char (lower_char c) = lower_char c"
proof -
  have "of_char (char_of (of_char c + 32 :: nat)) = (of_char c + 32 :: nat)" if "of_char c \<le> (90 :: nat)"
    using that by simp
  then show ?thesis by (auto simp: lower_char_def Let_def)
qed

lemma ToLower_idem [simp]: "ToLower (ToLower s) = ToLower s"
  by (simp add: ToLower_def lower_char_idem)

text \<open>\<open>uint64(t.Unix() / 86400)\<close>: the UTC day of a block time in seconds.\<close>

definition utc_day :: "int \<Rightarrow> nat" where
  "utc_day unix = nat (quo unix 86400 mod 2 ^ 64)"

lemma utc_day_mono: "0 \<le> t \<Longrightarrow> t \<le> t' \<Longrightarrow> t' < 2 ^ 63 \<Longrightarrow> utc_day t \<le> utc_day t'"
proof -
  assume t: "0 \<le> t" "t \<le> t'" "t' < 2 ^ 63"
  then have "t div 86400 \<le> t' div 86400" "0 \<le> t div 86400" by (auto intro: zdiv_mono1)
  moreover have "t' div 86400 < 2 ^ 64" using t by (simp add: div_less_iff_less_mult)
  ultimately show ?thesis using t by (simp add: utc_day_def quo_pos)
qed

subsection \<open>Lists of integers\<close>

lemma sum_list_sort: "sum_list (map f (sort xs)) = sum_list (map f xs)" for f :: "'a :: linorder \<Rightarrow> 'b :: comm_monoid_add"
proof -
  have "mset (map f (sort xs)) = mset (map f xs)" by simp
  then show ?thesis by (metis sum_mset_sum_list)
qed

lemma sum_list_map_int: "sum_list (map (\<lambda>x. int (f x)) xs) = int (sum_list (map f xs))"
  by (induction xs) auto

lemma sum_list_nonneg_int: "(\<And>x. x \<in> set xs \<Longrightarrow> 0 \<le> x) \<Longrightarrow> 0 \<le> sum_list (xs :: int list)"
  by (rule sum_list_nonneg)

lemma sum_list_member_le:
  "(\<And>y. y \<in> set xs \<Longrightarrow> 0 \<le> y) \<Longrightarrow> x \<in> set xs \<Longrightarrow> x \<le> sum_list (xs :: int list)"
  by (rule member_le_sum_list) auto

end
