(* ===== verification/KVStore.thy ===== *)
theory KVStore
  imports Prelude "HOL-Library.Sublist"
begin

text \<open>
  The key-value store the modules keep their state in, at two levels. First the bytes of a key:
  the helpers \<open>u64\<close>, \<open>concat\<close> and \<open>prefixEnd\<close> that the keepers of \<open>x/encmempool\<close>,
  \<open>x/contest\<close>, \<open>x/valgrant\<close> and \<open>x/vpcap\<close> share, with the facts that make their store
  layouts sound: the big-endian encoding keeps the order of numbers, and a scan over
  \<open>[p, prefixEnd p)\<close> visits exactly the keys that start with \<open>p\<close>. Then the store as the
  components use it, an association list in key order, behind a locale with its laws.
\<close>

subsection \<open>Bytes of a key\<close>

type_synonym bytes = "nat list"

definition is_bytes :: "bytes \<Rightarrow> bool" where
  "is_bytes bs = (\<forall>b \<in> set bs. b < 256)"

text \<open>\<open>binary.BigEndian.PutUint64\<close>: the most significant byte first.\<close>

fun big_endian :: "nat \<Rightarrow> nat \<Rightarrow> bytes" where
  "big_endian 0 v = []"
| "big_endian (Suc n) v = (v div 256 ^ n) mod 256 # big_endian n v"

definition u64_bytes :: "nat \<Rightarrow> bytes" where
  "u64_bytes v = big_endian 8 v"

definition str_bytes :: "string \<Rightarrow> bytes" where
  "str_bytes s = map of_char s"

definition concat_parts :: "bytes list \<Rightarrow> bytes" where
  "concat_parts parts = foldl (\<lambda>out p. out @ p) [] parts"

text \<open>
  \<open>prefixEnd\<close> walks from the last byte to the first, looking for one that is not \<open>0xFF\<close>:
  it increments that byte and cuts the key behind it. \<open>None\<close> is Go's \<open>nil\<close>, an open end.
\<close>

fun prefixEnd_from :: "bytes \<Rightarrow> bytes option" where
  "prefixEnd_from [] = None"
| "prefixEnd_from (b # rest) = (if b \<noteq> 255 then Some (rev ((b + 1) # rest)) else prefixEnd_from rest)"

definition prefixEnd :: "bytes \<Rightarrow> bytes option" where
  "prefixEnd p = prefixEnd_from (rev p)"

text \<open>The keys an iterator over \<open>[start, end)\<close> visits.\<close>

definition in_range :: "bytes \<Rightarrow> bytes option \<Rightarrow> bytes \<Rightarrow> bool" where
  "in_range start stop k = (start \<le> k \<and> (case stop of None \<Rightarrow> True | Some e \<Rightarrow> k < e))"

lemma is_bytes_simps [simp]:
  "is_bytes []" "is_bytes (b # bs) \<longleftrightarrow> b < 256 \<and> is_bytes bs"
  "is_bytes (xs @ ys) \<longleftrightarrow> is_bytes xs \<and> is_bytes ys"
  by (auto simp: is_bytes_def)

lemma concat_parts_eq [simp]: "concat_parts ps = concat ps"
proof -
  have "foldl (\<lambda>out p. out @ p) acc ps = acc @ concat ps" for acc
    by (induction ps arbitrary: acc) auto
  then show ?thesis by (simp add: concat_parts_def)
qed

lemma length_big_endian [simp]: "length (big_endian n v) = n"
  by (induction n) auto

lemma is_bytes_big_endian [simp]: "is_bytes (big_endian n v)"
  by (induction n) auto

lemma length_u64_bytes [simp]: "length (u64_bytes v) = 8"
  by (simp add: u64_bytes_def)

lemma is_bytes_u64 [simp]: "is_bytes (u64_bytes v)"
  by (simp add: u64_bytes_def)

lemma is_bytes_str [simp]: "is_bytes (str_bytes s)"
proof -
  have "of_char c < (256 :: nat)" for c :: char
    using mod_less_divisor [of 256 "of_char c"] by simp
  then show ?thesis by (auto simp: str_bytes_def is_bytes_def)
qed

lemma inj_str_bytes [simp]: "str_bytes s = str_bytes t \<longleftrightarrow> s = t"
  unfolding str_bytes_def by (rule inj_map_eq_map) (rule inj_of_char)

subsection \<open>The encoding keeps the order\<close>

lemma big_endian_add: "big_endian n (v + 256 ^ n * a) = big_endian n v"
proof (induction n arbitrary: a)
  case (Suc n)
  have "(v + 256 ^ Suc n * a) div 256 ^ n mod 256 = (v div 256 ^ n + 256 * a) mod 256"
    by (simp add: mult.assoc mult.left_commute [of 256])
  with Suc.IH [of "256 * a"] show ?case
    by (simp add: mult.assoc mult.left_commute [of 256])
qed simp

lemma big_endian_Suc:
  assumes "v < 256 ^ Suc n"
  shows "big_endian (Suc n) v = v div 256 ^ n # big_endian n (v mod 256 ^ n)"
proof -
  have "v div 256 ^ n < 256"
    using assms by (simp add: less_mult_imp_div_less)
  moreover have "big_endian n v = big_endian n (v mod 256 ^ n)"
    using big_endian_add [of n "v mod 256 ^ n" "v div 256 ^ n"] by simp
  ultimately show ?thesis by simp
qed

lemma big_endian_less_iff:
  "v < 256 ^ n \<Longrightarrow> w < 256 ^ n \<Longrightarrow> big_endian n v < big_endian n w \<longleftrightarrow> v < w"
proof (induction n arbitrary: v w)
  case (Suc n)
  let ?d = "256 ^ n :: nat"
  have IH: "big_endian n (v mod ?d) < big_endian n (w mod ?d) \<longleftrightarrow> v mod ?d < w mod ?d"
    by (rule Suc.IH) simp_all
  have v: "v = v div ?d * ?d + v mod ?d" and w: "w = w div ?d * ?d + w mod ?d"
    by (rule div_mult_mod_eq [symmetric])+
  show ?case
  proof (cases "v div ?d" "w div ?d" rule: linorder_cases)
    case less
    then have "\<not> w \<le> v" by (meson div_le_mono leD)
    with less show ?thesis
      by (simp add: big_endian_Suc [OF Suc.prems(1)] big_endian_Suc [OF Suc.prems(2)]
          del: big_endian.simps)
  next
    case equal
    then have "v < w \<longleftrightarrow> v mod ?d < w mod ?d"
      using v w by (metis add_less_cancel_left)
    with equal IH show ?thesis
      by (simp add: big_endian_Suc [OF Suc.prems(1)] big_endian_Suc [OF Suc.prems(2)]
          del: big_endian.simps)
  next
    case greater
    then have "\<not> v \<le> w" by (meson div_le_mono leD)
    with greater show ?thesis
      by (simp add: big_endian_Suc [OF Suc.prems(1)] big_endian_Suc [OF Suc.prems(2)]
          del: big_endian.simps)
  qed
qed simp

lemma u64_bytes_less_iff:
  "v < 2 ^ 64 \<Longrightarrow> w < 2 ^ 64 \<Longrightarrow> u64_bytes v < u64_bytes w \<longleftrightarrow> v < w"
  by (simp add: u64_bytes_def big_endian_less_iff)

lemma u64_bytes_inj:
  assumes "v < 2 ^ 64" "w < 2 ^ 64"
  shows "u64_bytes v = u64_bytes w \<longleftrightarrow> v = w"
  using u64_bytes_less_iff [OF assms] u64_bytes_less_iff [OF assms(2,1)]
  by (metis less_irrefl linorder_neqE)

text \<open>Keys of equal length in front decide the order of a compound key.\<close>

lemma append_less_iff:
  "length xs = length ys \<Longrightarrow>
    (xs @ us < ys @ vs) \<longleftrightarrow> xs < ys \<or> xs = ys \<and> us < (vs :: 'a :: order list)"
  by (induction xs ys rule: list_induct2) auto

subsection \<open>A prefix scan\<close>

fun prefix_end :: "bytes \<Rightarrow> bytes option" where
  "prefix_end [] = None"
| "prefix_end (b # bs) =
     (case prefix_end bs of Some e \<Rightarrow> Some (b # e)
      | None \<Rightarrow> if b \<noteq> 255 then Some [b + 1] else None)"

lemma prefixEnd_from_append:
  "prefixEnd_from (xs @ [b]) =
    (case prefixEnd_from xs of Some e \<Rightarrow> Some (b # e)
     | None \<Rightarrow> if b \<noteq> 255 then Some [b + 1] else None)"
  by (induction xs) auto

lemma prefixEnd_eq: "prefixEnd p = prefix_end p"
  by (induction p) (simp_all add: prefixEnd_def prefixEnd_from_append split: option.splits)

lemma prefix_end_None: "prefix_end p = None \<Longrightarrow> is_bytes k \<Longrightarrow> p \<le> k \<longleftrightarrow> prefix p k"
proof (induction p arbitrary: k)
  case (Cons b p)
  then have "b = 255" and "prefix_end p = None"
    by (auto split: option.splits if_splits)
  with Cons show ?case by (cases k) auto
qed simp

lemma prefix_end_Some:
  "prefix_end p = Some e \<Longrightarrow> is_bytes k \<Longrightarrow> p \<le> k \<and> k < e \<longleftrightarrow> prefix p k"
proof (induction p arbitrary: k e)
  case (Cons b p)
  show ?case
  proof (cases "prefix_end p")
    case None
    with Cons.prems have e: "e = [b + 1]" by (auto split: if_splits)
    show ?thesis
      using Cons.prems(2) prefix_end_None [OF None] by (cases k) (auto simp: e)
  next
    case (Some e')
    with Cons.prems have e: "e = b # e'" by simp
    show ?thesis
      using Cons.prems(2) Cons.IH [OF Some] by (cases k) (auto simp: e)
  qed
qed simp

lemma in_range_prefixEnd_iff: "is_bytes k \<Longrightarrow> in_range p (prefixEnd p) k \<longleftrightarrow> prefix p k"
  by (cases "prefix_end p")
    (simp_all add: in_range_def prefixEnd_eq prefix_end_None prefix_end_Some)

subsection \<open>The store in key order\<close>

text \<open>
  A component's records of one kind, as an association list in strictly ascending key order:
  \<open>Get\<close>, \<open>Set\<close> and \<open>Delete\<close> of the SDK store, and its iterator, which visits the entries
  in that order.
\<close>

type_synonym ('k, 'v) kv = "('k \<times> 'v) list"

fun kv_set :: "'k :: linorder \<Rightarrow> 'v \<Rightarrow> ('k, 'v) kv \<Rightarrow> ('k, 'v) kv" where
  "kv_set k v [] = [(k, v)]"
| "kv_set k v ((k', v') # s) =
     (if k < k' then (k, v) # (k', v') # s
      else if k = k' then (k, v) # s
      else (k', v') # kv_set k v s)"

definition kv_get :: "('k, 'v) kv \<Rightarrow> 'k \<Rightarrow> 'v option" where
  "kv_get s k = map_of s k"

definition kv_del :: "'k \<Rightarrow> ('k, 'v) kv \<Rightarrow> ('k, 'v) kv" where
  "kv_del k s = filter (\<lambda>(k', _). k' \<noteq> k) s"

definition kv_ok :: "('k :: linorder, 'v) kv \<Rightarrow> bool" where
  "kv_ok s = sorted_wrt (<) (map fst s)"

lemma kv_get_Nil [simp]: "kv_get [] k = None"
  by (simp add: kv_get_def)

lemma kv_get_Cons [simp]: "kv_get ((k', v) # s) k = (if k = k' then Some v else kv_get s k)"
  by (simp add: kv_get_def)

lemma kv_get_set [simp]: "kv_get (kv_set k v s) k' = (if k' = k then Some v else kv_get s k')"
  by (induction k v s rule: kv_set.induct) auto

lemma kv_get_del [simp]: "kv_get (kv_del k s) k' = (if k' = k then None else kv_get s k')"
  by (induction s) (auto simp: kv_del_def)

lemma kv_get_None_iff: "kv_get s k = None \<longleftrightarrow> k \<notin> set (map fst s)"
  by (simp add: kv_get_def map_of_eq_None_iff)

lemma kv_get_Some_mem: "kv_get s k = Some v \<Longrightarrow> (k, v) \<in> set s"
  by (simp add: kv_get_def map_of_SomeD)

lemma fst_set_kv_set: "fst ` set (kv_set k v s) = insert k (fst ` set s)"
  by (induction k v s rule: kv_set.induct) auto

lemma kv_ok_Nil [simp]: "kv_ok []"
  by (simp add: kv_ok_def)

lemma kv_ok_Cons: "kv_ok ((k, v) # s) \<longleftrightarrow> (\<forall>k' \<in> fst ` set s. k < k') \<and> kv_ok s"
  by (auto simp: kv_ok_def)

lemma kv_ok_set [simp]: "kv_ok s \<Longrightarrow> kv_ok (kv_set k v s)"
  by (induction k v s rule: kv_set.induct) (auto simp: kv_ok_Cons fst_set_kv_set)

lemma kv_ok_filter [simp]: "kv_ok s \<Longrightarrow> kv_ok (filter P s)"
  by (induction s) (auto simp: kv_ok_Cons)

lemma kv_ok_del [simp]: "kv_ok s \<Longrightarrow> kv_ok (kv_del k s)"
  by (simp add: kv_del_def)

lemma kv_ok_distinct: "kv_ok s \<Longrightarrow> distinct (map fst s)"
  by (simp add: kv_ok_def strict_sorted_iff)

lemma kv_mem_iff: "kv_ok s \<Longrightarrow> (k, v) \<in> set s \<longleftrightarrow> kv_get s k = Some v"
  by (simp add: kv_get_def kv_ok_distinct)

text \<open>
  What a client relies on: the store is a finite map, its entries come in ascending key order,
  and a write or a delete changes one entry. A weight summed over all entries (a count, a total)
  then changes by that entry alone.
\<close>

locale ordered_store =
  fixes get :: "'s \<Rightarrow> 'k :: linorder \<Rightarrow> 'v option"
    and put :: "'k \<Rightarrow> 'v \<Rightarrow> 's \<Rightarrow> 's"
    and del :: "'k \<Rightarrow> 's \<Rightarrow> 's"
    and entries :: "'s \<Rightarrow> ('k \<times> 'v) list"
    and ok :: "'s \<Rightarrow> bool"
  assumes get_put: "get (put k v s) k' = (if k' = k then Some v else get s k')"
    and get_del: "get (del k s) k' = (if k' = k then None else get s k')"
    and ok_put: "ok s \<Longrightarrow> ok (put k v s)"
    and ok_del: "ok s \<Longrightarrow> ok (del k s)"
    and entries_sorted: "ok s \<Longrightarrow> sorted_wrt (<) (map fst (entries s))"
    and entries_get: "ok s \<Longrightarrow> (k, v) \<in> set (entries s) \<longleftrightarrow> get s k = Some v"
begin

lemma entries_distinct: "ok s \<Longrightarrow> distinct (entries s)"
  using entries_sorted [of s] by (simp add: strict_sorted_iff distinct_map)

lemma total_eq_sum: "ok s \<Longrightarrow> sum_list (map f (entries s)) = (\<Sum>e \<in> set (entries s). f e)"
  by (simp add: entries_distinct sum_list_distinct_conv_sum_set)

lemma entries_put_set:
  "ok s \<Longrightarrow> set (entries (put k v s)) = insert (k, v) {e \<in> set (entries s). fst e \<noteq> k}"
  by (auto simp: entries_get ok_put get_put split: if_splits)

lemma entries_del_set: "ok s \<Longrightarrow> set (entries (del k s)) = {e \<in> set (entries s). fst e \<noteq> k}"
  by (auto simp: entries_get ok_del get_del split: if_splits)

lemma entries_at: "ok s \<Longrightarrow> {e \<in> set (entries s). fst e = k} = (case get s k of None \<Rightarrow> {} | Some v \<Rightarrow> {(k, v)})"
  by (auto simp: entries_get split: option.splits)

lemma total_split:
  assumes "ok s"
  shows "sum_list (map f (entries s)) =
    (\<Sum>e | e \<in> set (entries s) \<and> fst e \<noteq> k. f e) + (case get s k of None \<Rightarrow> 0 | Some v \<Rightarrow> f (k, v))"
proof -
  have "set (entries s) = {e \<in> set (entries s). fst e \<noteq> k} \<union> {e \<in> set (entries s). fst e = k}"
    by auto
  then have "(\<Sum>e \<in> set (entries s). f e) =
      (\<Sum>e | e \<in> set (entries s) \<and> fst e \<noteq> k. f e) + (\<Sum>e | e \<in> set (entries s) \<and> fst e = k. f e)"
    by (metis (no_types, lifting) List.finite_set sum.union_disjoint finite_Un disjoint_iff mem_Collect_eq)
  with assms show ?thesis by (simp add: total_eq_sum entries_at split: option.splits)
qed

lemma total_put:
  fixes f :: "'k \<times> 'v \<Rightarrow> 'a :: comm_monoid_add"
  assumes "ok s"
  shows "sum_list (map f (entries (put k v s))) + (case get s k of None \<Rightarrow> 0 | Some w \<Rightarrow> f (k, w))
    = sum_list (map f (entries s)) + f (k, v)"
  using total_split [OF assms, of f k] assms
  by (simp add: total_eq_sum ok_put entries_put_set add.commute add.left_commute)

lemma total_del:
  fixes f :: "'k \<times> 'v \<Rightarrow> 'a :: comm_monoid_add"
  assumes "ok s"
  shows "sum_list (map f (entries (del k s))) + (case get s k of None \<Rightarrow> 0 | Some w \<Rightarrow> f (k, w))
    = sum_list (map f (entries s))"
  using total_split [OF assms, of f k] assms
  by (simp add: total_eq_sum ok_del entries_del_set)

end

interpretation kvs: ordered_store kv_get kv_set kv_del "\<lambda>s. s" kv_ok
  by unfold_locales (auto simp: kv_ok_def [symmetric] kv_mem_iff)

end
