(* ===== verification/Sdk.thy ===== *)
theory Sdk
  imports Prelude
begin

text \<open>
  What the modules call in the Cosmos SDK, as parameters of the model. The bank keeper is a
  record of its operations over an abstract bank state; \<open>bank_keeper\<close> is the contract the
  modules rely on, the documented behaviour of \<open>x/bank\<close>: a transfer moves exactly the coins it
  names, minting and burning change the supply with the balance, a module may mint or burn if
  the application gave its account that permission, and a module account that holds the coins
  can send them. \<open>sdk_math\<close> is the decimal form of \<open>math.Int\<close>: \<open>NewIntFromString\<close> and
  \<open>String\<close>, of which the modules need that reading a printed integer gives it back and that zero prints as \<open>0\<close>.
  Amounts are unbounded integers: \<open>math.Int\<close> panics beyond 256 bits, which is outside the model.
  The ledger and the decimal codec at the end are the concrete instances the witnesses run on.
\<close>

subsection \<open>Module accounts and their permissions\<close>

datatype permission = Minter | Burner | Staking

text \<open>\<open>maccPerms\<close> of the application; \<open>None\<close> is a name that is no module account.\<close>

definition maccPerms :: "string \<Rightarrow> permission list option" where
  "maccPerms = map_of
    [(''fee_collector'', []), (''distribution'', []), (''transfer'', [Minter, Burner]),
     (''mint'', [Minter]), (''bonded_tokens_pool'', [Burner, Staking]),
     (''not_bonded_tokens_pool'', [Burner, Staking]), (''gov'', [Burner]),
     (''evm'', [Minter, Burner]), (''feemarket'', []), (''erc20'', [Minter, Burner]),
     (''squeeze'', [Burner]), (''paymaster_gas_pool'', []), (''gassponsor'', [Minter]),
     (''valgrant'', [Burner]), (''encmempool'', [Burner])]"

definition has_perm :: "string \<Rightarrow> permission \<Rightarrow> bool" where
  "has_perm m p = (case maccPerms m of None \<Rightarrow> False | Some ps \<Rightarrow> p \<in> set ps)"

definition is_macc :: "string \<Rightarrow> bool" where
  "is_macc m = (maccPerms m \<noteq> None)"

subsection \<open>Coins\<close>

type_synonym coins = "(denom \<times> int) list"

definition AmountOf :: "coins \<Rightarrow> denom \<Rightarrow> int" where
  "AmountOf cs d = (case map_of cs d of None \<Rightarrow> 0 | Some a \<Rightarrow> a)"

text \<open>\<open>sdk.NewCoins(sdk.NewCoin(d, a))\<close>, which drops a zero coin.\<close>

definition NewCoins :: "denom \<Rightarrow> int \<Rightarrow> coins" where
  "NewCoins d a = (if a = 0 then [] else [(d, a)])"

lemma AmountOf_NewCoins [simp]: "AmountOf (NewCoins d a) d' = (if d' = d then a else 0)"
  by (simp add: AmountOf_def NewCoins_def)

lemma set_NewCoins: "a \<noteq> 0 \<Longrightarrow> set (NewCoins d a) = {(d, a)}"
  by (simp add: NewCoins_def)

subsection \<open>The bank keeper\<close>

record 'b bank =
  bk_balance :: "'b \<Rightarrow> addr \<Rightarrow> denom \<Rightarrow> int"
  bk_supply :: "'b \<Rightarrow> denom \<Rightarrow> int"
  bk_modaddr :: "string \<Rightarrow> addr"
  SendCoinsFromModuleToModule :: "'b \<Rightarrow> string \<Rightarrow> string \<Rightarrow> coins \<Rightarrow> 'b result"
  SendCoinsFromAccountToModule :: "'b \<Rightarrow> addr \<Rightarrow> string \<Rightarrow> coins \<Rightarrow> 'b result"
  SendCoinsFromModuleToAccount :: "'b \<Rightarrow> string \<Rightarrow> addr \<Rightarrow> coins \<Rightarrow> 'b result"
  MintCoins :: "'b \<Rightarrow> string \<Rightarrow> coins \<Rightarrow> 'b result"
  BurnCoins :: "'b \<Rightarrow> string \<Rightarrow> coins \<Rightarrow> 'b result"

text \<open>\<open>moved b b' src dst cs\<close>: the balances after \<open>cs\<close> left \<open>src\<close> for \<open>dst\<close>.\<close>

definition moved :: "'b bank \<Rightarrow> 'b \<Rightarrow> 'b \<Rightarrow> addr \<Rightarrow> addr \<Rightarrow> coins \<Rightarrow> bool" where
  "moved bk b b' src dst cs =
    ((\<forall>a d. bk_balance bk b' a d = bk_balance bk b a d
        - (if a = src then AmountOf cs d else 0) + (if a = dst then AmountOf cs d else 0)) \<and>
     bk_supply bk b' = bk_supply bk b)"

text \<open>\<open>issued b b' dst cs\<close>: the balances and the supply after \<open>cs\<close> was created at \<open>dst\<close>.\<close>

definition issued :: "'b bank \<Rightarrow> 'b \<Rightarrow> 'b \<Rightarrow> addr \<Rightarrow> (denom \<Rightarrow> int) \<Rightarrow> bool" where
  "issued bk b b' dst amt =
    ((\<forall>a d. bk_balance bk b' a d = bk_balance bk b a d + (if a = dst then amt d else 0)) \<and>
     (\<forall>d. bk_supply bk b' d = bk_supply bk b d + amt d))"

definition holds_coins :: "'b bank \<Rightarrow> 'b \<Rightarrow> addr \<Rightarrow> coins \<Rightarrow> bool" where
  "holds_coins bk b a cs = (\<forall>(d, x) \<in> set cs. 0 < x \<and> x \<le> bk_balance bk b a d)"

locale bank_keeper =
  fixes bk :: "'b bank"
  assumes module_to_module:
      "SendCoinsFromModuleToModule bk b m m' cs = Inr b' \<Longrightarrow>
        moved bk b b' (bk_modaddr bk m) (bk_modaddr bk m') cs"
    and account_to_module:
      "SendCoinsFromAccountToModule bk b a m cs = Inr b' \<Longrightarrow> moved bk b b' a (bk_modaddr bk m) cs"
    and module_to_account:
      "SendCoinsFromModuleToAccount bk b m a cs = Inr b' \<Longrightarrow> moved bk b b' (bk_modaddr bk m) a cs"
    and mint:
      "MintCoins bk b m cs = Inr b' \<Longrightarrow> issued bk b b' (bk_modaddr bk m) (AmountOf cs)"
    and burn:
      "BurnCoins bk b m cs = Inr b' \<Longrightarrow> issued bk b b' (bk_modaddr bk m) (\<lambda>d. - AmountOf cs d)"
    and module_to_module_ok:
      "is_macc m \<Longrightarrow> is_macc m' \<Longrightarrow> length cs = 1 \<Longrightarrow> holds_coins bk b (bk_modaddr bk m) cs \<Longrightarrow>
        is_ok (SendCoinsFromModuleToModule bk b m m' cs)"
    and mint_ok:
      "has_perm m Minter \<Longrightarrow> length cs = 1 \<Longrightarrow> (\<forall>(d, x) \<in> set cs. 0 < x) \<Longrightarrow> is_ok (MintCoins bk b m cs)"
    and burn_ok:
      "has_perm m Burner \<Longrightarrow> length cs = 1 \<Longrightarrow> holds_coins bk b (bk_modaddr bk m) cs \<Longrightarrow>
        is_ok (BurnCoins bk b m cs)"
    and modaddr_inj: "is_macc m \<Longrightarrow> is_macc m' \<Longrightarrow> bk_modaddr bk m = bk_modaddr bk m' \<longleftrightarrow> m = m'"
begin

text \<open>The three operations on one positive coin, as the modules use them.\<close>

lemma send_one:
  assumes "is_macc m" "is_macc m'" "0 < x" "x \<le> bk_balance bk b (bk_modaddr bk m) d"
  shows "\<exists>b'. SendCoinsFromModuleToModule bk b m m' (NewCoins d x) = Inr b' \<and>
    moved bk b b' (bk_modaddr bk m) (bk_modaddr bk m') (NewCoins d x)"
proof -
  have "is_ok (SendCoinsFromModuleToModule bk b m m' (NewCoins d x))"
    by (rule module_to_module_ok) (use assms in \<open>auto simp: holds_coins_def NewCoins_def\<close>)
  then show ?thesis by (auto simp: is_ok_iff dest: module_to_module)
qed

lemma mint_one:
  assumes "has_perm m Minter" "0 < x"
  shows "\<exists>b'. MintCoins bk b m (NewCoins d x) = Inr b' \<and>
    issued bk b b' (bk_modaddr bk m) (AmountOf (NewCoins d x))"
proof -
  have "is_ok (MintCoins bk b m (NewCoins d x))"
    by (rule mint_ok) (use assms in \<open>auto simp: NewCoins_def\<close>)
  then show ?thesis by (auto simp: is_ok_iff dest: mint)
qed

lemma burn_one:
  assumes "has_perm m Burner" "0 < x" "x \<le> bk_balance bk b (bk_modaddr bk m) d"
  shows "\<exists>b'. BurnCoins bk b m (NewCoins d x) = Inr b' \<and>
    issued bk b b' (bk_modaddr bk m) (\<lambda>d'. - AmountOf (NewCoins d x) d')"
proof -
  have "is_ok (BurnCoins bk b m (NewCoins d x))"
    by (rule burn_ok) (use assms in \<open>auto simp: holds_coins_def NewCoins_def\<close>)
  then show ?thesis by (auto simp: is_ok_iff simp del: AmountOf_NewCoins dest: burn)
qed

text \<open>The guarded forms: an amount of zero is no call.\<close>

lemma send_guarded:
  assumes "is_macc m" "is_macc m'" "0 \<le> x" "x \<le> bk_balance bk b (bk_modaddr bk m) d"
  shows "\<exists>b'. (if 0 < x then SendCoinsFromModuleToModule bk b m m' (NewCoins d x) else Inr b) = Inr b' \<and>
    moved bk b b' (bk_modaddr bk m) (bk_modaddr bk m') (NewCoins d x)"
  using send_one [of m m' x b d] assms by (cases "0 < x") (auto simp: moved_def)

lemma burn_guarded:
  assumes "has_perm m Burner" "0 \<le> x" "x \<le> bk_balance bk b (bk_modaddr bk m) d"
  shows "\<exists>b'. (if 0 < x then BurnCoins bk b m (NewCoins d x) else Inr b) = Inr b' \<and>
    issued bk b b' (bk_modaddr bk m) (\<lambda>d'. - AmountOf (NewCoins d x) d')"
  using burn_one [of m x b d] assms by (cases "0 < x") (auto simp: issued_def)

end

subsection \<open>Integers in decimal\<close>

record sdk_math =
  NewIntFromString :: "string \<Rightarrow> int option"
  IntString :: "int \<Rightarrow> string"

locale int_codec =
  fixes M :: sdk_math
  assumes parse_print: "NewIntFromString M (IntString M v) = Some v"
    and print_zero: "IntString M 0 = ''0''"

text \<open>An amount kept as its decimal string; a missing or unreadable record counts as zero.\<close>

definition read_int :: "sdk_math \<Rightarrow> string option \<Rightarrow> int" where
  "read_int M r = (case r of None \<Rightarrow> 0 | Some s \<Rightarrow> (case NewIntFromString M s of None \<Rightarrow> 0 | Some v \<Rightarrow> v))"

lemma read_int_None [simp]: "read_int M None = 0"
  by (simp add: read_int_def)

context int_codec
begin

lemma parse_zero [simp]: "NewIntFromString M ''0'' = Some 0"
  using parse_print [of 0] by (simp add: print_zero)

lemma read_print [simp]: "read_int M (Some (IntString M v)) = v"
  by (simp add: read_int_def parse_print)

end

subsection \<open>A ledger\<close>

record ledger =
  l_balance :: "addr \<Rightarrow> denom \<Rightarrow> int"
  l_supply :: "denom \<Rightarrow> int"

definition ledger_add :: "addr \<Rightarrow> (denom \<Rightarrow> int) \<Rightarrow> ledger \<Rightarrow> ledger" where
  "ledger_add a amt b = b\<lparr>l_balance := (\<lambda>a' d. l_balance b a' d + (if a' = a then amt d else 0))\<rparr>"

definition ledger_move :: "ledger \<Rightarrow> addr \<Rightarrow> addr \<Rightarrow> coins \<Rightarrow> ledger result" where
  "ledger_move b src dst cs =
    (if list_all (\<lambda>(d, x). 0 < x \<and> x \<le> l_balance b src d) cs
     then Inr (ledger_add dst (AmountOf cs) (ledger_add src (\<lambda>d. - AmountOf cs d) b))
     else Inl (Error ''insufficient funds''))"

definition ledger_issue :: "ledger \<Rightarrow> addr \<Rightarrow> (denom \<Rightarrow> int) \<Rightarrow> ledger" where
  "ledger_issue b dst amt =
    (ledger_add dst amt b)\<lparr>l_supply := (\<lambda>d. l_supply b d + amt d)\<rparr>"

definition ledger_bank :: "ledger bank" where
  "ledger_bank = \<lparr>
    bk_balance = l_balance, bk_supply = l_supply, bk_modaddr = (\<lambda>m. ''module/'' @ m),
    SendCoinsFromModuleToModule = (\<lambda>b m m' cs. ledger_move b (''module/'' @ m) (''module/'' @ m') cs),
    SendCoinsFromAccountToModule = (\<lambda>b a m cs. ledger_move b a (''module/'' @ m) cs),
    SendCoinsFromModuleToAccount = (\<lambda>b m a cs. ledger_move b (''module/'' @ m) a cs),
    MintCoins = (\<lambda>b m cs. if has_perm m Minter then Inr (ledger_issue b (''module/'' @ m) (AmountOf cs))
      else Inl (Error ''no permission to mint'')),
    BurnCoins = (\<lambda>b m cs. if \<not> has_perm m Burner then Inl (Error ''no permission to burn'')
      else if list_all (\<lambda>(d, x). 0 < x \<and> x \<le> l_balance b (''module/'' @ m) d) cs
      then Inr (ledger_issue b (''module/'' @ m) (\<lambda>d. - AmountOf cs d))
      else Inl (Error ''insufficient funds''))\<rparr>"

lemma ledger_move_moved: "ledger_move b src dst cs = Inr b' \<Longrightarrow> moved ledger_bank b b' src dst cs"
  by (auto simp: ledger_move_def ledger_add_def moved_def ledger_bank_def split: if_splits)

lemma ledger_move_ok: "holds_coins ledger_bank b src cs \<Longrightarrow> is_ok (ledger_move b src dst cs)"
  by (auto simp: ledger_move_def holds_coins_def ledger_bank_def list_all_iff)

lemma ledger_issue_issued: "issued ledger_bank b (ledger_issue b dst amt) dst amt"
  by (simp add: issued_def ledger_issue_def ledger_add_def ledger_bank_def)

interpretation ledger: bank_keeper ledger_bank
proof unfold_locales
  fix b m m' a cs and b' :: ledger
  show "SendCoinsFromModuleToModule ledger_bank b m m' cs = Inr b' \<Longrightarrow>
      moved ledger_bank b b' (bk_modaddr ledger_bank m) (bk_modaddr ledger_bank m') cs"
    and "SendCoinsFromAccountToModule ledger_bank b a m cs = Inr b' \<Longrightarrow>
      moved ledger_bank b b' a (bk_modaddr ledger_bank m) cs"
    and "SendCoinsFromModuleToAccount ledger_bank b m a cs = Inr b' \<Longrightarrow>
      moved ledger_bank b b' (bk_modaddr ledger_bank m) a cs"
    using ledger_move_moved by (simp_all add: ledger_bank_def)
  show "MintCoins ledger_bank b m cs = Inr b' \<Longrightarrow>
      issued ledger_bank b b' (bk_modaddr ledger_bank m) (AmountOf cs)"
    and "BurnCoins ledger_bank b m cs = Inr b' \<Longrightarrow>
      issued ledger_bank b b' (bk_modaddr ledger_bank m) (\<lambda>d. - AmountOf cs d)"
    using ledger_issue_issued by (auto simp: ledger_bank_def split: if_splits)
  show "is_macc m \<Longrightarrow> is_macc m' \<Longrightarrow> length cs = 1 \<Longrightarrow>
      holds_coins ledger_bank b (bk_modaddr ledger_bank m) cs \<Longrightarrow>
      is_ok (SendCoinsFromModuleToModule ledger_bank b m m' cs)"
    using ledger_move_ok by (simp add: ledger_bank_def)
  show "has_perm m Minter \<Longrightarrow> length cs = 1 \<Longrightarrow> (\<forall>(d, x) \<in> set cs. 0 < x) \<Longrightarrow>
      is_ok (MintCoins ledger_bank b m cs)"
    by (simp add: ledger_bank_def)
  show "has_perm m Burner \<Longrightarrow> length cs = 1 \<Longrightarrow>
      holds_coins ledger_bank b (bk_modaddr ledger_bank m) cs \<Longrightarrow> is_ok (BurnCoins ledger_bank b m cs)"
    by (simp add: ledger_bank_def holds_coins_def list_all_iff)
  show "bk_modaddr ledger_bank m = bk_modaddr ledger_bank m' \<longleftrightarrow> m = m'"
    by (simp add: ledger_bank_def)
qed

subsection \<open>The decimal codec\<close>

definition digit_char :: "nat \<Rightarrow> char" where
  "digit_char n = char_of (48 + n)"

definition char_digit :: "char \<Rightarrow> nat option" where
  "char_digit c = (let n = of_char c in if 48 \<le> n \<and> n \<le> 57 then Some (n - 48) else None)"

fun print_nat :: "nat \<Rightarrow> string" where
  "print_nat n = (if n < 10 then [digit_char n] else print_nat (n div 10) @ [digit_char (n mod 10)])"

declare print_nat.simps [simp del]

definition parse_digit :: "nat option \<Rightarrow> char \<Rightarrow> nat option" where
  "parse_digit acc c =
    (case acc of None \<Rightarrow> None
     | Some n \<Rightarrow> (case char_digit c of None \<Rightarrow> None | Some d \<Rightarrow> Some (10 * n + d)))"

definition parse_nat :: "string \<Rightarrow> nat option" where
  "parse_nat s = (if s = [] then None else foldl parse_digit (Some 0) s)"

definition parse_int :: "string \<Rightarrow> int option" where
  "parse_int s = (case s of
      [] \<Rightarrow> None
    | c # cs \<Rightarrow> if c = CHR ''-'' then map_option (\<lambda>n. - int n) (parse_nat cs)
        else map_option int (parse_nat s))"

definition print_int :: "int \<Rightarrow> string" where
  "print_int v = (if v < 0 then CHR ''-'' # print_nat (nat (- v)) else print_nat (nat v))"

definition decimal :: sdk_math where
  "decimal = \<lparr>NewIntFromString = parse_int, IntString = print_int\<rparr>"

lemma char_digit_digit: "n < 10 \<Longrightarrow> char_digit (digit_char n) = Some n"
  by (simp add: char_digit_def digit_char_def Let_def)

lemma print_nat_nonempty: "print_nat n \<noteq> []"
  by (subst print_nat.simps) simp

lemma foldl_parse_print: "foldl parse_digit (Some 0) (print_nat n) = Some n"
proof (induction n rule: print_nat.induct)
  case (1 n)
  show ?case
  proof (cases "n < 10")
    case True
    then show ?thesis by (simp add: print_nat.simps [of n] parse_digit_def char_digit_digit)
  next
    case False
    with 1 show ?thesis
      by (simp add: print_nat.simps [of n] parse_digit_def char_digit_digit)
  qed
qed

lemma parse_print_nat: "parse_nat (print_nat n) = Some n"
  by (simp add: parse_nat_def print_nat_nonempty foldl_parse_print)

lemma hd_print_nat: "hd (print_nat n) \<noteq> CHR ''-''"
proof (induction n rule: print_nat.induct)
  case (1 n)
  have "digit_char n \<noteq> CHR ''-''" if "n < 10"
    using char_digit_digit [OF that] by (auto simp: char_digit_def)
  with 1 show ?case by (simp add: print_nat.simps [of n] print_nat_nonempty)
qed

lemma parse_print_int: "parse_int (print_int v) = Some v"
proof (cases "v < 0")
  case True
  then show ?thesis by (simp add: parse_int_def print_int_def parse_print_nat)
next
  case False
  then show ?thesis
    using hd_print_nat [of "nat v"] print_nat_nonempty [of "nat v"] parse_print_nat [of "nat v"]
    by (cases "print_nat (nat v)") (simp_all add: parse_int_def print_int_def)
qed

interpretation decimal: int_codec decimal
proof unfold_locales
  show "NewIntFromString decimal (IntString decimal v) = Some v" for v
    by (simp add: decimal_def parse_print_int)
  have "print_nat 0 = ''0''" by code_simp
  then show "IntString decimal 0 = ''0''" by (simp add: decimal_def print_int_def)
qed

end
