(* ===== verification/Squeeze.thy ===== *)
theory Squeeze
  imports Sdk
begin

text \<open>
  \<open>x/squeeze\<close>: at the start of every block the fees collected so far are split. A burned share
  leaves the supply, a granted share goes to the gas pool, and the rest stays with the fee
  collector for the validators. The module keeps its two shares, in basis points, as one blob.
\<close>

subsection \<open>Parameters\<close>

abbreviation (input) "FeeCollectorName \<equiv> ''fee_collector''"
abbreviation (input) "SqueezeModuleName \<equiv> ''squeeze''"
abbreviation (input) "GasPoolName \<equiv> ''paymaster_gas_pool''"
abbreviation (input) "FeeDenom \<equiv> ''aLIMO''"

definition BpsDenom :: int where
  "BpsDenom = 10000"

record squeeze_params =
  BurnBps :: nat
  GrantBps :: nat

record squeeze_store =
  sq_ParamsKey :: "squeeze_params blob option"

definition DefaultParams_squeeze :: squeeze_params where
  "DefaultParams_squeeze = \<lparr>BurnBps = 2000, GrantBps = 2000\<rparr>"

text \<open>The fields are \<open>uint32\<close>, so their sum in \<open>uint64\<close> is exact.\<close>

definition Validate_squeeze :: "squeeze_params \<Rightarrow> unit result" where
  "Validate_squeeze p =
    (if BurnBps p = 0 \<and> GrantBps p = 0 then Inr ()
     else if BurnBps p < 1000 \<or> BurnBps p > 5000 then Inl (Error ''burn_bps out of allowed range'')
     else if GrantBps p < 1000 \<or> GrantBps p > 4000 then Inl (Error ''grant_bps out of allowed range'')
     else let take = BurnBps p + GrantBps p
       in if take < 3000 \<or> take > 7000 then Inl (Error ''burn_bps+grant_bps out of allowed range'')
       else Inr ())"

definition SetParams_squeeze :: "squeeze_store \<Rightarrow> squeeze_params \<Rightarrow> squeeze_store" where
  "SetParams_squeeze st p = st\<lparr>sq_ParamsKey := Some (Json p)\<rparr>"

definition GetParams_squeeze :: "squeeze_store \<Rightarrow> squeeze_params" where
  "GetParams_squeeze st = read_or DefaultParams_squeeze (sq_ParamsKey st)"

definition InitGenesis_squeeze :: "squeeze_store \<Rightarrow> squeeze_params \<Rightarrow> squeeze_store" where
  "InitGenesis_squeeze st gs = SetParams_squeeze st gs"

definition ExportGenesis_squeeze :: "squeeze_store \<Rightarrow> squeeze_params" where
  "ExportGenesis_squeeze st = GetParams_squeeze st"

text \<open>The in-place upgrade that installs the settled split on a running chain.\<close>

definition applySqueezeSplitParams :: "squeeze_store \<Rightarrow> squeeze_store" where
  "applySqueezeSplitParams st =
    (let sp = GetParams_squeeze st
     in SetParams_squeeze st (sp\<lparr>BurnBps := 2000, GrantBps := 2000\<rparr>))"

interpretation squeeze: params_store SetParams_squeeze GetParams_squeeze
  by unfold_locales (simp_all add: SetParams_squeeze_def GetParams_squeeze_def)

subsection \<open>The split\<close>

definition BeginBlock_squeeze :: "'b bank \<Rightarrow> squeeze_store \<Rightarrow> 'b \<Rightarrow> 'b result" where
  "BeginBlock_squeeze bk st b =
    (let amt = bk_balance bk b (bk_modaddr bk FeeCollectorName) FeeDenom in
     if \<not> 0 < amt then Inr b
     else
       let p = GetParams_squeeze st;
           burnAmt = quo (amt * int (BurnBps p)) BpsDenom;
           grantAmt = quo (amt * int (GrantBps p)) BpsDenom;
           movedAmt = burnAmt + grantAmt in
       if \<not> 0 < movedAmt then Inr b
       else and_then
         (SendCoinsFromModuleToModule bk b FeeCollectorName SqueezeModuleName (NewCoins FeeDenom movedAmt))
         (\<lambda>b1. and_then
           (if 0 < burnAmt then BurnCoins bk b1 SqueezeModuleName (NewCoins FeeDenom burnAmt) else Inr b1)
           (\<lambda>b2. if 0 < grantAmt
             then SendCoinsFromModuleToModule bk b2 SqueezeModuleName GasPoolName (NewCoins FeeDenom grantAmt)
             else Inr b2)))"

text \<open>The shares the split takes of a fee, as a specification.\<close>

definition bps_share :: "int \<Rightarrow> nat \<Rightarrow> int" where
  "bps_share fee bps = fee * int bps div 10000"

lemma bps_share_nonneg: "0 \<le> fee \<Longrightarrow> 0 \<le> bps_share fee bps"
  by (simp add: bps_share_def pos_imp_zdiv_nonneg_iff)

lemma bps_share_sum_le:
  assumes "0 \<le> fee" "x + y \<le> 10000"
  shows "bps_share fee x + bps_share fee y \<le> fee"
proof -
  have "(bps_share fee x + bps_share fee y) * 10000 \<le> fee * int x + fee * int y"
    using div_mult_le [of 10000 "fee * int x"] div_mult_le [of 10000 "fee * int y"]
    by (simp add: bps_share_def algebra_simps)
  also have "\<dots> = fee * int (x + y)" by (simp add: algebra_simps)
  also have "\<dots> \<le> fee * 10000" using assms by (intro mult_left_mono) simp_all
  finally show ?thesis by simp
qed

lemma quo_BpsDenom: "0 \<le> fee \<Longrightarrow> quo (fee * int x) BpsDenom = bps_share fee x"
  by (simp add: BpsDenom_def bps_share_def quo_pos)

lemma maccs_squeeze:
  "is_macc FeeCollectorName" "is_macc SqueezeModuleName" "is_macc GasPoolName"
  "has_perm SqueezeModuleName Burner"
  by (simp_all add: is_macc_def has_perm_def maccPerms_def)

text \<open>
  The block's transfer in one statement: what the balances and the supply are after the split
  took \<open>burn\<close> and \<open>grant\<close>.
\<close>

definition squeezed :: "'b bank \<Rightarrow> 'b \<Rightarrow> 'b \<Rightarrow> int \<Rightarrow> int \<Rightarrow> bool" where
  "squeezed bk b b' burn grant =
    ((\<forall>a d. bk_balance bk b' a d = bk_balance bk b a d
        - (if a = bk_modaddr bk FeeCollectorName \<and> d = FeeDenom then burn + grant else 0)
        + (if a = bk_modaddr bk GasPoolName \<and> d = FeeDenom then grant else 0)) \<and>
     (\<forall>d. bk_supply bk b' d = bk_supply bk b d - (if d = FeeDenom then burn else 0)))"

context bank_keeper
begin

lemma BeginBlock_squeeze_splits:
  fixes b :: 'b
  defines "fee \<equiv> bk_balance bk b (bk_modaddr bk FeeCollectorName) FeeDenom"
  assumes fee: "0 \<le> fee" and bps: "BurnBps p + GrantBps p \<le> 10000"
    and p: "GetParams_squeeze st = p"
    and own: "0 \<le> bk_balance bk b (bk_modaddr bk SqueezeModuleName) FeeDenom"
  shows "\<exists>b'. BeginBlock_squeeze bk st b = Inr b' \<and>
    squeezed bk b b' (bps_share fee (BurnBps p)) (bps_share fee (GrantBps p))"
proof -
  define burn where "burn = bps_share fee (BurnBps p)"
  define grant where "grant = bps_share fee (GrantBps p)"
  have nonneg: "0 \<le> burn" "0 \<le> grant" and le: "burn + grant \<le> fee"
    using fee bps by (simp_all add: burn_def grant_def bps_share_nonneg bps_share_sum_le)
  have shares: "quo (fee * int (BurnBps p)) BpsDenom = burn" "quo (fee * int (GrantBps p)) BpsDenom = grant"
    using fee by (simp_all add: burn_def grant_def quo_BpsDenom)
  have addrs: "bk_modaddr bk SqueezeModuleName \<noteq> bk_modaddr bk FeeCollectorName"
      "bk_modaddr bk SqueezeModuleName \<noteq> bk_modaddr bk GasPoolName"
      "bk_modaddr bk FeeCollectorName \<noteq> bk_modaddr bk GasPoolName"
    by (simp_all add: modaddr_inj maccs_squeeze)
  show ?thesis
  proof (cases "0 < burn + grant")
    case False
    then have "BeginBlock_squeeze bk st b = Inr b" and "burn = 0" "grant = 0"
      using nonneg shares by (auto simp: BeginBlock_squeeze_def Let_def p fee_def [symmetric])
    then show ?thesis by (auto simp: squeezed_def burn_def grant_def)
  next
    case True
    then have "0 < fee" using le by simp
    obtain b1 where b1: "SendCoinsFromModuleToModule bk b FeeCollectorName SqueezeModuleName
          (NewCoins FeeDenom (burn + grant)) = Inr b1"
        "moved bk b b1 (bk_modaddr bk FeeCollectorName) (bk_modaddr bk SqueezeModuleName)
          (NewCoins FeeDenom (burn + grant))"
      using send_one [OF maccs_squeeze(1,2) True, of b FeeDenom] le unfolding fee_def by blast
    have own1: "bk_balance bk b1 (bk_modaddr bk SqueezeModuleName) FeeDenom =
        bk_balance bk b (bk_modaddr bk SqueezeModuleName) FeeDenom + burn + grant"
      using b1(2) addrs by (simp add: moved_def)
    obtain b2 where b2: "(if 0 < burn then BurnCoins bk b1 SqueezeModuleName (NewCoins FeeDenom burn)
          else Inr b1) = Inr b2"
        "issued bk b1 b2 (bk_modaddr bk SqueezeModuleName) (\<lambda>d. - AmountOf (NewCoins FeeDenom burn) d)"
      using burn_guarded [OF maccs_squeeze(4) nonneg(1), of b1 FeeDenom] own1 own nonneg by auto
    have own2: "bk_balance bk b2 (bk_modaddr bk SqueezeModuleName) FeeDenom =
        bk_balance bk b (bk_modaddr bk SqueezeModuleName) FeeDenom + grant"
      using b2(2) own1 by (simp add: issued_def)
    obtain b3 where b3: "(if 0 < grant then SendCoinsFromModuleToModule bk b2 SqueezeModuleName GasPoolName
          (NewCoins FeeDenom grant) else Inr b2) = Inr b3"
        "moved bk b2 b3 (bk_modaddr bk SqueezeModuleName) (bk_modaddr bk GasPoolName)
          (NewCoins FeeDenom grant)"
      using send_guarded [OF maccs_squeeze(2,3) nonneg(2), of b2 FeeDenom] own2 own by auto
    have "BeginBlock_squeeze bk st b = Inr b3"
      by (simp only: BeginBlock_squeeze_def Let_def p fee_def [symmetric] shares True \<open>0 < fee\<close>
          b1(1) b2(1) b3(1) and_then_simps not_True_eq_False if_False)
    moreover have "squeezed bk b b3 burn grant"
      using b1(2) b2(2) b3(2) addrs by (auto simp: squeezed_def moved_def issued_def)
    ultimately show ?thesis by (auto simp: burn_def grant_def)
  qed
qed

end

text \<open>What the governance bounds leave for the validators: between 30 and 70 per cent and dust.\<close>

lemma Validate_squeeze_bounds:
  assumes "Validate_squeeze p = Inr ()" "0 < BurnBps p + GrantBps p"
  shows "3000 \<le> BurnBps p + GrantBps p" "BurnBps p + GrantBps p \<le> 7000"
    "1000 \<le> BurnBps p" "1000 \<le> GrantBps p"
  using assms by (auto simp: Validate_squeeze_def Let_def split: if_splits)

lemma Validate_squeeze_take: "Validate_squeeze p = Inr () \<Longrightarrow> BurnBps p + GrantBps p \<le> 10000"
  by (auto simp: Validate_squeeze_def Let_def split: if_splits)

lemma bps_share_bounds: "bps_share fee x * 10000 \<le> fee * int x" "fee * int x < bps_share fee x * 10000 + 10000"
  using div_mult_le [of 10000 "fee * int x"] pos_mod_bound [of 10000 "fee * int x"]
    minus_mod_eq_div_mult [of "fee * int x" 10000]
  by (simp_all add: bps_share_def)

subsection \<open>Properties\<close>

text \<open>
  (C20) For any bank that keeps the \<open>x/bank\<close> contract and any split that passes \<open>Validate\<close>,
  the block's \<open>BeginBlock\<close> succeeds, and it conserves the fees: with \<open>burn\<close> and \<open>grant\<close> the
  rounded-down shares of the collected fee, the supply falls by exactly \<open>burn\<close>, the gas pool
  gains exactly \<open>grant\<close>, the fee collector keeps the rest, and no other account, the squeeze
  account included, and no other denomination changes.
\<close>

theorem squeeze_split_conserves:
  assumes "bank_keeper bk"
    and "Validate_squeeze (GetParams_squeeze st) = Inr ()"
    and "0 \<le> bk_balance bk b (bk_modaddr bk ''fee_collector'') ''aLIMO''"
    and "0 \<le> bk_balance bk b (bk_modaddr bk ''squeeze'') ''aLIMO''"
  shows "\<exists>b' burn grant. BeginBlock_squeeze bk st b = Inr b' \<and>
    burn = bk_balance bk b (bk_modaddr bk ''fee_collector'') ''aLIMO'' * int (BurnBps (GetParams_squeeze st)) div 10000 \<and>
    grant = bk_balance bk b (bk_modaddr bk ''fee_collector'') ''aLIMO'' * int (GrantBps (GetParams_squeeze st)) div 10000 \<and>
    (\<forall>a d. bk_balance bk b' a d = bk_balance bk b a d
        - (if a = bk_modaddr bk ''fee_collector'' \<and> d = ''aLIMO'' then burn + grant else 0)
        + (if a = bk_modaddr bk ''paymaster_gas_pool'' \<and> d = ''aLIMO'' then grant else 0)) \<and>
    (\<forall>d. bk_supply bk b' d = bk_supply bk b d - (if d = ''aLIMO'' then burn else 0))"
  using bank_keeper.BeginBlock_squeeze_splits [OF assms(1,3) Validate_squeeze_take [OF assms(2)] refl assms(4)]
  by (auto simp: squeezed_def bps_share_def)

definition block_with_fees :: "int \<Rightarrow> ledger" where
  "block_with_fees fee = \<lparr>l_balance = (\<lambda>a d. if a = ''module/fee_collector'' \<and> d = ''aLIMO'' then fee else 0),
    l_supply = (\<lambda>d. if d = ''aLIMO'' then fee else 0)\<rparr>"

theorem squeeze_split_conserves_witness:
  "\<exists>b'. BeginBlock_squeeze ledger_bank \<lparr>sq_ParamsKey = None\<rparr> (block_with_fees 1001) = Inr b' \<and>
    l_balance b' ''module/fee_collector'' ''aLIMO'' = 601 \<and>
    l_balance b' ''module/paymaster_gas_pool'' ''aLIMO'' = 200 \<and> l_supply b' ''aLIMO'' = 801"
  using squeeze_split_conserves [OF ledger.bank_keeper_axioms,
      of "\<lparr>sq_ParamsKey = None\<rparr>" "block_with_fees 1001"]
  by (auto simp: GetParams_squeeze_def DefaultParams_squeeze_def Validate_squeeze_def
      block_with_fees_def ledger_bank_def)

text \<open>
  (C31) Whatever split governance sets within the validated bounds, the fee collector is left
  with at least 30 per cent of the collected fee, and with at most 70 per cent plus less than two
  base units of rounding dust.
\<close>

theorem squeeze_validator_share_bounded:
  assumes "bank_keeper bk"
    and "Validate_squeeze (GetParams_squeeze st) = Inr ()"
    and "0 < BurnBps (GetParams_squeeze st) + GrantBps (GetParams_squeeze st)"
    and "0 \<le> bk_balance bk b (bk_modaddr bk ''fee_collector'') ''aLIMO''"
    and "0 \<le> bk_balance bk b (bk_modaddr bk ''squeeze'') ''aLIMO''"
  shows "\<exists>b'. BeginBlock_squeeze bk st b = Inr b' \<and>
    30 * bk_balance bk b (bk_modaddr bk ''fee_collector'') ''aLIMO''
      \<le> 100 * bk_balance bk b' (bk_modaddr bk ''fee_collector'') ''aLIMO'' \<and>
    100 * bk_balance bk b' (bk_modaddr bk ''fee_collector'') ''aLIMO''
      < 70 * bk_balance bk b (bk_modaddr bk ''fee_collector'') ''aLIMO'' + 200"
proof -
  let ?p = "GetParams_squeeze st"
  let ?fee = "bk_balance bk b (bk_modaddr bk ''fee_collector'') ''aLIMO''"
  let ?burn = "bps_share ?fee (BurnBps ?p)" and ?grant = "bps_share ?fee (GrantBps ?p)"
  obtain b' where b': "BeginBlock_squeeze bk st b = Inr b'" "squeezed bk b b' ?burn ?grant"
    using bank_keeper.BeginBlock_squeeze_splits [OF assms(1,4) Validate_squeeze_take [OF assms(2)] refl assms(5)]
    by blast
  have "bk_modaddr bk ''fee_collector'' \<noteq> bk_modaddr bk ''paymaster_gas_pool''"
    by (simp add: bank_keeper.modaddr_inj [OF assms(1)] maccs_squeeze)
  then have rest: "bk_balance bk b' (bk_modaddr bk ''fee_collector'') ''aLIMO'' = ?fee - ?burn - ?grant"
    using b'(2) by (simp add: squeezed_def)
  have "?fee * 3000 \<le> ?fee * (int (BurnBps ?p) + int (GrantBps ?p))"
      "?fee * (int (BurnBps ?p) + int (GrantBps ?p)) \<le> ?fee * 7000"
    using Validate_squeeze_bounds [OF assms(2,3)] assms(4) by (auto intro!: mult_left_mono)
  then show ?thesis
    using b'(1) rest bps_share_bounds [of ?fee "BurnBps ?p"] bps_share_bounds [of ?fee "GrantBps ?p"]
    by (auto simp: distrib_left)
qed

theorem squeeze_validator_share_bounded_witness:
  "\<exists>b'. BeginBlock_squeeze ledger_bank \<lparr>sq_ParamsKey = Some (Json \<lparr>BurnBps = 4000, GrantBps = 3000\<rparr>)\<rparr>
      (block_with_fees 1000) = Inr b' \<and>
    300 \<le> l_balance b' ''module/fee_collector'' ''aLIMO'' \<and>
    l_balance b' ''module/fee_collector'' ''aLIMO'' < 702"
  using squeeze_validator_share_bounded [OF ledger.bank_keeper_axioms,
      of "\<lparr>sq_ParamsKey = Some (Json \<lparr>BurnBps = 4000, GrantBps = 3000\<rparr>)\<rparr>" "block_with_fees 1000"]
  by (auto simp: GetParams_squeeze_def Validate_squeeze_def block_with_fees_def ledger_bank_def)

end
