(* ===== verification/EncTypes.thy ===== *)
theory EncTypes
  imports KVStore Sdk
begin

text \<open>
  The data of \<open>x/encmempool\<close>: committee members and the Shamir evaluation points they own,
  rounds of the distributed key generation, the key a round installs, commits, reveals,
  ciphertexts and decryption shares. \<open>None\<close> as a weight is Go's nil \<open>math.Int\<close>.
\<close>

subsection \<open>Committee members\<close>

record round_member =
  Index :: nat
  OperatorAddr :: string
  AccountAddr :: string
  EncPubKey :: bytes
  Weight :: "int option"
  EvalPoints :: "nat list"
  Weighted :: bool

definition OwnedEvalPoints :: "round_member \<Rightarrow> nat list" where
  "OwnedEvalPoints m =
    (if length (EvalPoints m) > 0 then EvalPoints m
     else if Weighted m then []
     else [Index m])"

definition OwnsEvalPoint :: "round_member \<Rightarrow> nat \<Rightarrow> bool" where
  "OwnsEvalPoint m p = list_ex (\<lambda>q. q = p) (OwnedEvalPoints m)"

fun TotalEvalPoints :: "round_member list \<Rightarrow> nat" where
  "TotalEvalPoints [] = 0"
| "TotalEvalPoints (m # ms) = length (OwnedEvalPoints m) + TotalEvalPoints ms"

fun EvalPointOwner :: "round_member list \<Rightarrow> nat \<Rightarrow> nat" where
  "EvalPointOwner [] p = 0"
| "EvalPointOwner (m # ms) p = (if OwnsEvalPoint m p then Index m else EvalPointOwner ms p)"

fun find_operator :: "round_member list \<Rightarrow> string \<Rightarrow> nat" where
  "find_operator [] operator = 0"
| "find_operator (m # ms) operator = (if OperatorAddr m = operator then Index m else find_operator ms operator)"

definition MemberIndexByOperator :: "round_member list \<Rightarrow> string \<Rightarrow> nat" where
  "MemberIndexByOperator members operator = (if operator = [] then 0 else find_operator members operator)"

definition VoteExtEnabledAt :: "int \<Rightarrow> int \<Rightarrow> bool" where
  "VoteExtEnabledAt enableHeight blockHeight = (enableHeight \<noteq> 0 \<and> blockHeight > enableHeight)"

subsection \<open>Rounds and keys\<close>

text \<open>The three statuses are strings; an imported file can hold any other string.\<close>

datatype dkg_status = DkgStatusOpen | DkgStatusActive | DkgStatusFailed | OtherStatus string

record dkg_round =
  dr_Epoch :: nat
  OpenHeight :: nat
  DealDeadline :: nat
  ComplaintDeadline :: nat
  Members :: "round_member list"
  dr_Threshold :: nat
  MembersHash :: bytes
  Status :: dkg_status
  Attempt :: nat

record active_key =
  ak_Epoch :: nat
  Pub :: bytes
  PublicCommitments :: "bytes list"
  ak_Threshold :: nat
  Qual :: "nat list"

subsection \<open>Facts\<close>

lemma TotalEvalPoints_eq: "TotalEvalPoints ms = length (concat (map OwnedEvalPoints ms))"
  by (induction ms) auto

lemma OwnsEvalPoint_iff: "OwnsEvalPoint m p \<longleftrightarrow> p \<in> set (OwnedEvalPoints m)"
  by (auto simp: OwnsEvalPoint_def list_ex_iff)

lemma EvalPointOwner_in:
  "distinct (concat (map OwnedEvalPoints ms)) \<Longrightarrow> m \<in> set ms \<Longrightarrow> p \<in> set (OwnedEvalPoints m) \<Longrightarrow>
    EvalPointOwner ms p = Index m"
  by (induction ms) (auto simp: OwnsEvalPoint_iff)

lemma EvalPointOwner_none:
  "p \<notin> set (concat (map OwnedEvalPoints ms)) \<Longrightarrow> EvalPointOwner ms p = 0"
  by (induction ms) (auto simp: OwnsEvalPoint_iff)

end
