(* ===== verification/StakeWeight.thy ===== *)
theory StakeWeight
  imports EncTypes
begin

text \<open>
  Stake-weighted secret sharing (\<open>keeper/stakeweight.go\<close>). A committee's members get Shamir
  evaluation points in proportion to their stake, by largest-remainder apportionment; a
  threshold is chosen from the number of points; and a guard refuses ciphertexts while the
  apportionment would let a coalition with at most two thirds of the stake decrypt, or one
  operator freeze decryption. The hash of the tie-break is a parameter.
\<close>

subsection \<open>Apportionment\<close>

definition weightOrZero :: "int option \<Rightarrow> int" where
  "weightOrZero w = (case w of None \<Rightarrow> 0 | Some v \<Rightarrow> v)"

definition is_staked :: "round_member \<Rightarrow> bool" where
  "is_staked m = (case Weight m of None \<Rightarrow> False | Some w \<Rightarrow> 0 < w)"

definition remainderTieKey :: "(bytes \<Rightarrow> bytes) \<Rightarrow> nat \<Rightarrow> string \<Rightarrow> bytes" where
  "remainderTieKey sha256 epoch operator =
    sha256 (str_bytes ''encmempool/dkg/remainder-seat-tiebreak/v1'' @ u64_bytes epoch @ str_bytes operator)"

text \<open>The total of the positive weights.\<close>

definition total_weight :: "round_member list \<Rightarrow> int" where
  "total_weight ms = foldl (\<lambda>totalW m. if is_staked m then totalW + weightOrZero (Weight m) else totalW) 0 ms"

text \<open>The rounded-down quota of a member and what the rounding left, scaled by the total.\<close>

definition base_of :: "int \<Rightarrow> int \<Rightarrow> round_member \<Rightarrow> int" where
  "base_of S totalW m = (if is_staked m then quo (weightOrZero (Weight m) * S) totalW else 0)"

definition rem_of :: "int \<Rightarrow> int \<Rightarrow> round_member \<Rightarrow> int" where
  "rem_of S totalW m = (if is_staked m then weightOrZero (Weight m) * S mod totalW else 0)"

text \<open>
  The order in which left-over points are given out, \<open>sort.SliceStable\<close> with its comparison as a
  lexicographic key: larger remainder, then larger stake, then smaller tie key. \<open>sort_key\<close> is
  stable.
\<close>

definition seat_key :: "(bytes \<Rightarrow> bytes) \<Rightarrow> nat \<Rightarrow> int \<Rightarrow> int \<Rightarrow> round_member \<Rightarrow> int \<times> int \<times> bytes" where
  "seat_key sha256 epoch S totalW m =
    (- rem_of S totalW m, - weightOrZero (Weight m), remainderTieKey sha256 epoch (OperatorAddr m))"

definition seat_order :: "(bytes \<Rightarrow> bytes) \<Rightarrow> nat \<Rightarrow> int \<Rightarrow> int \<Rightarrow> round_member list \<Rightarrow> nat list" where
  "seat_order sha256 epoch S totalW ms =
    sort_key (\<lambda>i. seat_key sha256 epoch S totalW (ms ! i)) [0..<length ms]"

definition add_seats :: "nat list \<Rightarrow> int list \<Rightarrow> int list" where
  "add_seats seats base = foldl (\<lambda>b i. b[i := b ! i + 1]) base seats"

definition seat_counts :: "(bytes \<Rightarrow> bytes) \<Rightarrow> nat \<Rightarrow> int \<Rightarrow> int \<Rightarrow> round_member list \<Rightarrow> int list" where
  "seat_counts sha256 epoch S totalW ms =
    (let base = map (base_of S totalW) ms;
         remainderSeats = S - sum_list base
     in if 0 < remainderSeats
        then add_seats (take (nat remainderSeats) (seat_order sha256 epoch S totalW ms)) base
        else base)"

text \<open>Contiguous blocks of points in the given order; \<open>next\<close> is the first point not yet given.\<close>

fun lay_out :: "nat \<Rightarrow> (int \<times> round_member) list \<Rightarrow> round_member list" where
  "lay_out next [] = []"
| "lay_out next ((a, m) # rest) =
     (if a \<le> 0 then m\<lparr>EvalPoints := []\<rparr> # lay_out next rest
      else m\<lparr>EvalPoints := [next..<next + nat a]\<rparr> # lay_out (next + nat a) rest)"

definition AllocateEvalPoints ::
    "(bytes \<Rightarrow> bytes) \<Rightarrow> round_member list \<Rightarrow> int \<Rightarrow> nat \<Rightarrow> round_member list" where
  "AllocateEvalPoints sha256 members budget epoch =
    (let totalW = total_weight members in
     if budget < 1 \<or> \<not> 0 < totalW
     then map (\<lambda>m. m\<lparr>EvalPoints := [Index m], Weighted := False\<rparr>) members
     else lay_out 1 (zip (seat_counts sha256 epoch budget totalW members)
       (map (\<lambda>m. m\<lparr>Weighted := True\<rparr>) members)))"

subsection \<open>Threshold\<close>

definition u32 :: "nat \<Rightarrow> nat" where
  "u32 n = n mod 2 ^ 32"

definition stakeThreshold :: "round_member list \<Rightarrow> bool \<Rightarrow> nat \<times> bool" where
  "stakeThreshold members strict =
    (let S = TotalEvalPoints members in
     if S < 1 then (1, False)
     else if \<not> list_ex Weighted members
     then (let tt = 2 * S div 3 + 1 in (u32 (if tt > S then S else tt), False))
     else
       let tt = (if strict then 2 * S div 3 + length members else 2 * S div 3 + 1);
           tt' = (if tt > S then S else tt);
           tt'' = (if tt' < 1 then 1 else tt')
       in (u32 tt'', False))"

subsection \<open>The cheapest coalition, by dynamic programming\<close>

text \<open>
  The arrays \<open>ok\<close> and \<open>dp\<close> as one list: entry \<open>p\<close> is the least stake seen that owns exactly
  \<open>p\<close> points, \<open>None\<close> where \<open>ok[p]\<close> is false. The inner loop runs from \<open>S\<close> down to 0 in place.
\<close>

definition relax :: "nat \<Rightarrow> nat \<Rightarrow> int \<Rightarrow> nat \<Rightarrow> int option list \<Rightarrow> int option list" where
  "relax S pts w have dp =
    (case dp ! have of
       None \<Rightarrow> dp
     | Some x \<Rightarrow>
         let nxt = (if have + pts > S then S else have + pts);
             cand = x + w
         in (case dp ! nxt of
               None \<Rightarrow> dp[nxt := Some cand]
             | Some y \<Rightarrow> if y > cand then dp[nxt := Some cand] else dp))"

fun sweep :: "nat \<Rightarrow> nat \<Rightarrow> int \<Rightarrow> nat \<Rightarrow> int option list \<Rightarrow> int option list" where
  "sweep S pts w 0 dp = relax S pts w 0 dp"
| "sweep S pts w (Suc have) dp = sweep S pts w have (relax S pts w (Suc have) dp)"

definition dp_member :: "nat \<Rightarrow> int option list \<Rightarrow> round_member \<Rightarrow> int option list" where
  "dp_member S dp m =
    (let pts = length (OwnedEvalPoints m) in
     if pts = 0 then dp else sweep S pts (weightOrZero (Weight m)) S dp)"

definition dp_table :: "nat \<Rightarrow> round_member list \<Rightarrow> int option list" where
  "dp_table S ms = foldl (dp_member S) ((replicate (S + 1) None)[0 := Some 0]) ms"

definition coalitionBelowTwoThirdsCanDecrypt :: "round_member list \<Rightarrow> nat \<Rightarrow> bool" where
  "coalitionBelowTwoThirdsCanDecrypt members threshold =
    (if threshold = 0 then False
     else if list_ex (\<lambda>m. \<not> Weighted m) members then False
     else
       let totalStake = sum_list (map (\<lambda>m. weightOrZero (Weight m)) members);
           S = TotalEvalPoints members in
       if \<not> 0 < totalStake \<or> S = 0 then False
       else if threshold > S then False
       else
         let dp = dp_table S members
         in list_ex (\<lambda>pts. case dp ! pts of None \<Rightarrow> False | Some x \<Rightarrow> \<not> x * 3 > totalStake * 2)
              [threshold..<S + 1])"

subsection \<open>The guard\<close>

text \<open>
  The two records the guard reads: \<open>GetActiveKey\<close> and \<open>GetDkgRound\<close> of the epoch, \<open>None\<close> where the
  store has none. The loop over the members stops at the first verdict.
\<close>

fun concentration_scan :: "nat \<Rightarrow> nat \<Rightarrow> round_member list \<Rightarrow> bool option" where
  "concentration_scan threshold strandBar [] = None"
| "concentration_scan threshold strandBar (m # ms) =
     (if \<not> Weighted m then Some False
      else
        let owned = length (OwnedEvalPoints m) in
        if u32 owned \<ge> threshold then Some True
        else if strandBar > 0 \<and> owned \<ge> strandBar then Some True
        else concentration_scan threshold strandBar ms)"

definition CommitteeConcentrationBreached ::
    "(nat \<Rightarrow> active_key option) \<Rightarrow> (nat \<Rightarrow> dkg_round option) \<Rightarrow> nat \<Rightarrow> bool \<Rightarrow> bool" where
  "CommitteeConcentrationBreached GetActiveKey GetDkgRound epoch strict =
    (if epoch = 0 then False
     else case GetActiveKey epoch of
       None \<Rightarrow> False
     | Some ak \<Rightarrow>
         if ak_Threshold ak = 0 then False
         else (case GetDkgRound epoch of
           None \<Rightarrow> False
         | Some r \<Rightarrow>
             if length (Members r) = 0 then False
             else
               let S = TotalEvalPoints (Members r);
                   strandBar = (if strict then if S + 1 > ak_Threshold ak then S - ak_Threshold ak + 1 else 0 else 0)
               in (case concentration_scan (ak_Threshold ak) strandBar (Members r) of
                     Some verdict \<Rightarrow> verdict
                   | None \<Rightarrow> coalitionBelowTwoThirdsCanDecrypt (Members r) (ak_Threshold ak))))"

subsection \<open>Apportionment: the arithmetic\<close>

text \<open>The positive part of a member's weight, and the points rounding down leaves over.\<close>

definition stake :: "round_member \<Rightarrow> int" where
  "stake m = (if is_staked m then weightOrZero (Weight m) else 0)"

definition left_over :: "int \<Rightarrow> round_member list \<Rightarrow> int" where
  "left_over S ms = S - sum_list (map (base_of S (total_weight ms)) ms)"

lemma stake_nonneg [simp]: "0 \<le> stake m"
  by (simp add: stake_def is_staked_def weightOrZero_def split: option.splits)

lemma total_weight_eq: "total_weight ms = sum_list (map stake ms)"
proof -
  have "foldl (\<lambda>totalW m. if is_staked m then totalW + weightOrZero (Weight m) else totalW) a ms
      = a + sum_list (map stake ms)" for a
    by (induction ms arbitrary: a) (auto simp: stake_def)
  then show ?thesis by (simp add: total_weight_def)
qed

lemma sum_list_nth_map: "sum_list (map f xs) = (\<Sum>i<length xs. f (xs ! i))"
  by (simp add: sum_list_sum_nth atLeast0LessThan)

lemma base_rem: "1 \<le> S \<Longrightarrow> 0 < W \<Longrightarrow> base_of S W m * W + rem_of S W m = stake m * S"
  using stake_nonneg [of m] by (cases "is_staked m") (simp_all add: base_of_def rem_of_def stake_def quo_pos)

lemma rem_bounds: "0 < W \<Longrightarrow> 0 \<le> rem_of S W m" "0 < W \<Longrightarrow> rem_of S W m < W"
  by (simp_all add: rem_of_def)

lemma base_nonneg: "1 \<le> S \<Longrightarrow> 0 < W \<Longrightarrow> 0 \<le> base_of S W m"
  using stake_nonneg [of m] by (cases "is_staked m") (simp_all add: base_of_def stake_def quo_nonneg)

lemma left_over_rem:
  assumes "1 \<le> S" "0 < total_weight ms"
  shows "left_over S ms * total_weight ms = (\<Sum>i<length ms. rem_of S (total_weight ms) (ms ! i))"
proof -
  let ?W = "total_weight ms"
  have "(\<Sum>i<length ms. base_of S ?W (ms ! i)) * ?W + (\<Sum>i<length ms. rem_of S ?W (ms ! i))
      = (\<Sum>i<length ms. stake (ms ! i) * S)"
    by (simp add: sum_distrib_right base_rem assms flip: sum.distrib)
  also have "\<dots> = ?W * S" by (simp add: total_weight_eq sum_list_nth_map sum_distrib_right)
  finally show ?thesis by (simp add: left_over_def sum_list_nth_map algebra_simps)
qed

lemma left_over_nonneg:
  assumes "1 \<le> S" "0 < total_weight ms"
  shows "0 \<le> left_over S ms"
proof -
  have "0 \<le> left_over S ms * total_weight ms"
    using rem_bounds assms by (simp add: left_over_rem sum_nonneg)
  then show ?thesis using assms by (simp add: zero_le_mult_iff)
qed

text \<open>Fewer points are left over than members have a remainder.\<close>

lemma left_over_less:
  fixes S ms
  defines "Z \<equiv> {i. i < length ms \<and> 0 < rem_of S (total_weight ms) (ms ! i)}"
  assumes "1 \<le> S" "0 < total_weight ms" "0 < left_over S ms"
  shows "left_over S ms < int (card Z)"
proof -
  let ?W = "total_weight ms" and ?rem = "\<lambda>i. rem_of S (total_weight ms) (ms ! i)"
  have split: "(\<Sum>i<length ms. ?rem i) = (\<Sum>i\<in>Z. ?rem i)"
    unfolding Z_def
    by (rule sum.mono_neutral_right) (use rem_bounds(1) assms(3) in \<open>auto simp: not_less intro: antisym\<close>)
  have eq: "left_over S ms * ?W = (\<Sum>i\<in>Z. ?rem i)"
    using left_over_rem [OF assms(2,3)] split by simp
  have "Z \<noteq> {}"
  proof
    assume "Z = {}"
    with eq assms(3,4) show False by (simp del: mult_eq_0_iff) (simp add: mult_pos_pos)
  qed
  then have "(\<Sum>i\<in>Z. ?rem i) < (\<Sum>i\<in>Z. ?W)"
    by (intro sum_strict_mono) (use rem_bounds(2) assms(3) in \<open>auto simp: Z_def\<close>)
  then have "left_over S ms * ?W < int (card Z) * ?W"
    using eq by simp
  then show ?thesis using assms(3) by (simp add: mult_less_cancel_right)
qed

lemma left_over_less_length:
  assumes "1 \<le> S" "0 < total_weight ms"
  shows "left_over S ms < int (length ms)"
proof (cases "0 < left_over S ms")
  case True
  have "card {i. i < length ms \<and> 0 < rem_of S (total_weight ms) (ms ! i)} \<le> card {..<length ms}"
    by (rule card_mono) auto
  with left_over_less [OF assms True] show ?thesis by simp
next
  case False
  have "ms \<noteq> []" using assms(2) by (auto simp: total_weight_def)
  with False show ?thesis by (cases ms) auto
qed

subsection \<open>Apportionment: the seats\<close>

lemma set_seat_order [simp]: "set (seat_order sha256 epoch S W ms) = {..<length ms}"
  by (auto simp: seat_order_def)

lemma distinct_seat_order [simp]: "distinct (seat_order sha256 epoch S W ms)"
  by (simp add: seat_order_def)

lemma length_seat_order [simp]: "length (seat_order sha256 epoch S W ms) = length ms"
  by (simp add: seat_order_def)

lemma seat_order_desc:
  assumes "i < j" "j < length ms"
  shows "rem_of S W (ms ! (seat_order sha256 epoch S W ms ! j))
    \<le> rem_of S W (ms ! (seat_order sha256 epoch S W ms ! i))"
proof -
  let ?k = "\<lambda>i. seat_key sha256 epoch S W (ms ! i)"
  let ?o = "seat_order sha256 epoch S W ms"
  have "sorted (map ?k ?o)" by (simp add: seat_order_def)
  then have "?k (?o ! i) \<le> ?k (?o ! j)"
    using assms by (simp add: sorted_iff_nth_mono)
  then show ?thesis by (auto simp: seat_key_def less_eq_prod_def)
qed

lemma seat_has_rem:
  assumes S: "1 \<le> S" "0 < total_weight ms"
    and i: "i \<in> set (take (nat (left_over S ms)) (seat_order sha256 epoch S (total_weight ms) ms))"
  shows "0 < rem_of S (total_weight ms) (ms ! i)"
proof (rule ccontr)
  let ?rem = "\<lambda>i. rem_of S (total_weight ms) (ms ! i)"
  let ?o = "seat_order sha256 epoch S (total_weight ms) ms"
  let ?Z = "{i. i < length ms \<and> 0 < ?rem i}"
  assume neg: "\<not> 0 < ?rem i"
  obtain k where k: "k < nat (left_over S ms)" "k < length ms" "?o ! k = i"
    using i by (auto simp: in_set_conv_nth)
  have "?Z \<subseteq> set (take k ?o)"
  proof
    fix z assume z: "z \<in> ?Z"
    then have "z \<in> set ?o" by simp
    then obtain j where j: "j < length ms" "?o ! j = z" by (metis in_set_conv_nth length_seat_order)
    have "j < k"
    proof (rule ccontr)
      assume "\<not> j < k"
      then have "?rem z \<le> ?rem i"
        using seat_order_desc [of k j ms S "total_weight ms" sha256 epoch] j k by (cases "j = k") auto
      with z neg show False by simp
    qed
    with j k show "z \<in> set (take k ?o)" by (auto simp: in_set_conv_nth)
  qed
  then have "card ?Z \<le> card (set (take k ?o))" by (intro card_mono) auto
  also have "\<dots> \<le> k" using card_length [of "take k ?o"] by simp
  finally show False using left_over_less [OF S] k by linarith
qed

lemma add_seats_nth:
  "distinct seats \<Longrightarrow> set seats \<subseteq> {..<length base} \<Longrightarrow> i < length base \<Longrightarrow>
    add_seats seats base ! i = base ! i + (if i \<in> set seats then 1 else 0)"
  unfolding add_seats_def
  by (induction seats arbitrary: base) (auto simp: nth_list_update)

lemma length_add_seats [simp]: "length (add_seats seats base) = length base"
  unfolding add_seats_def by (induction seats arbitrary: base) auto

text \<open>The members that get one point more than their rounded-down quota.\<close>

definition seated :: "(bytes \<Rightarrow> bytes) \<Rightarrow> nat \<Rightarrow> int \<Rightarrow> round_member list \<Rightarrow> nat set" where
  "seated sha256 epoch S ms = set (take (nat (left_over S ms)) (seat_order sha256 epoch S (total_weight ms) ms))"

lemma seated_subset: "seated sha256 epoch S ms \<subseteq> {..<length ms}"
  unfolding seated_def using set_take_subset set_seat_order by (metis (no_types))

lemma card_seated:
  assumes "1 \<le> S" "0 < total_weight ms"
  shows "int (card (seated sha256 epoch S ms)) = left_over S ms"
proof -
  have "card (seated sha256 epoch S ms) = min (length ms) (nat (left_over S ms))"
    unfolding seated_def by (simp add: distinct_card min.commute)
  then show ?thesis
    using left_over_less_length [OF assms] left_over_nonneg [OF assms] by simp
qed

lemma length_seat_counts [simp]: "length (seat_counts sha256 epoch S W ms) = length ms"
  by (simp add: seat_counts_def Let_def)

lemma seat_counts_nth:
  assumes "i < length ms"
  shows "seat_counts sha256 epoch S (total_weight ms) ms ! i =
    base_of S (total_weight ms) (ms ! i) + (if i \<in> seated sha256 epoch S ms then 1 else 0)"
proof (cases "0 < left_over S ms")
  case True
  let ?seats = "take (nat (left_over S ms)) (seat_order sha256 epoch S (total_weight ms) ms)"
  have "set ?seats \<subseteq> {..<length (map (base_of S (total_weight ms)) ms)}"
    using seated_subset [of sha256 epoch S ms] by (simp add: seated_def)
  moreover have "seat_counts sha256 epoch S (total_weight ms) ms =
      add_seats ?seats (map (base_of S (total_weight ms)) ms)"
    using True by (simp add: seat_counts_def Let_def left_over_def)
  ultimately show ?thesis using assms by (simp add: seated_def add_seats_nth)
next
  case False
  then show ?thesis
    using assms by (simp add: seat_counts_def Let_def left_over_def seated_def)
qed

lemma sum_seat_counts:
  assumes "1 \<le> S" "0 < total_weight ms"
  shows "sum_list (seat_counts sha256 epoch S (total_weight ms) ms) = S"
proof -
  have "sum_list (seat_counts sha256 epoch S (total_weight ms) ms) =
      (\<Sum>i<length ms. base_of S (total_weight ms) (ms ! i)) + (\<Sum>i<length ms. if i \<in> seated sha256 epoch S ms then 1 else 0)"
    by (simp add: sum_list_sum_nth atLeast0LessThan seat_counts_nth sum.distrib)
  also have "(\<Sum>i<length ms. if i \<in> seated sha256 epoch S ms then 1 else 0 :: int) = int (card (seated sha256 epoch S ms))"
    using seated_subset [of sha256 epoch S ms] by (simp add: Int_absorb1 flip: sum.inter_restrict)
  finally show ?thesis
    by (simp add: card_seated [OF assms] left_over_def sum_list_nth_map)
qed

subsection \<open>Apportionment: the committee\<close>

lemma length_lay_out [simp]: "length (lay_out p zs) = length zs"
  by (induction p zs rule: lay_out.induct) auto

lemma OwnedEvalPoints_weighted: "Weighted m \<Longrightarrow> OwnedEvalPoints m = EvalPoints m"
  by (simp add: OwnedEvalPoints_def)

lemma lay_out_points:
  "(\<And>a m. (a, m) \<in> set zs \<Longrightarrow> Weighted m) \<Longrightarrow>
    concat (map OwnedEvalPoints (lay_out p zs)) = [p..<p + sum_list (map (nat \<circ> fst) zs)]"
proof (induction p zs rule: lay_out.induct)
  case (2 p a m rest)
  have "Weighted m" by (rule "2.prems" [of a]) simp
  moreover have "Weighted m'" if "(a', m') \<in> set rest" for a' m'
    by (rule "2.prems" [of a']) (simp add: that)
  moreover have "[p..<p + nat a + k] = [p..<p + nat a] @ [p + nat a..<p + nat a + k]" for k
    by (rule upt_add_eq_append) simp
  ultimately show ?case
    using "2.IH" by (cases "a \<le> 0") (simp_all add: OwnedEvalPoints_weighted flip: add.assoc)
qed simp

lemma lay_out_nth:
  "i < length zs \<Longrightarrow> Weighted (snd (zs ! i)) \<Longrightarrow>
    \<exists>pts. lay_out p zs ! i = (snd (zs ! i))\<lparr>EvalPoints := pts\<rparr> \<and> length pts = nat (fst (zs ! i))"
proof (induction p zs arbitrary: i rule: lay_out.induct)
  case (2 p a m rest)
  then show ?case by (cases i) auto
qed simp

lemma sum_list_map_nat:
  "(\<And>x. x \<in> set xs \<Longrightarrow> 0 \<le> x) \<Longrightarrow> int (sum_list (map nat xs)) = sum_list xs"
  by (induction xs) auto

definition points :: "round_member \<Rightarrow> nat" where
  "points m = length (OwnedEvalPoints m)"

lemma length_AllocateEvalPoints [simp]: "length (AllocateEvalPoints sha256 ms S epoch) = length ms"
  by (simp add: AllocateEvalPoints_def Let_def)

lemma AllocateEvalPoints_nth:
  assumes "1 \<le> S" "0 < total_weight ms" "i < length ms"
  shows "\<exists>pts. AllocateEvalPoints sha256 ms S epoch ! i = (ms ! i)\<lparr>Weighted := True, EvalPoints := pts\<rparr> \<and>
    int (length pts) = base_of S (total_weight ms) (ms ! i) + (if i \<in> seated sha256 epoch S ms then 1 else 0)"
proof -
  let ?zs = "zip (seat_counts sha256 epoch S (total_weight ms) ms) (map (\<lambda>m. m\<lparr>Weighted := True\<rparr>) ms)"
  have nth: "?zs ! i = (seat_counts sha256 epoch S (total_weight ms) ms ! i, (ms ! i)\<lparr>Weighted := True\<rparr>)"
    using assms by simp
  have "AllocateEvalPoints sha256 ms S epoch = lay_out 1 ?zs"
    using assms by (simp add: AllocateEvalPoints_def Let_def)
  moreover have "0 \<le> base_of S (total_weight ms) (ms ! i)"
    using assms by (simp add: base_nonneg)
  ultimately show ?thesis
    using lay_out_nth [of i ?zs 1] assms nth by (auto simp: seat_counts_nth)
qed

lemma AllocateEvalPoints_keeps:
  assumes "1 \<le> S" "0 < total_weight ms" "i < length ms"
  shows "Weighted (AllocateEvalPoints sha256 ms S epoch ! i)"
    "Weight (AllocateEvalPoints sha256 ms S epoch ! i) = Weight (ms ! i)"
    "Index (AllocateEvalPoints sha256 ms S epoch ! i) = Index (ms ! i)"
    "int (points (AllocateEvalPoints sha256 ms S epoch ! i)) =
      base_of S (total_weight ms) (ms ! i) + (if i \<in> seated sha256 epoch S ms then 1 else 0)"
  using AllocateEvalPoints_nth [OF assms, of sha256 epoch]
  by (auto simp: points_def OwnedEvalPoints_weighted)

lemma AllocateEvalPoints_domain:
  assumes "1 \<le> S" "0 < total_weight ms"
  shows "concat (map OwnedEvalPoints (AllocateEvalPoints sha256 ms S epoch)) = [1..<Suc (nat S)]"
proof -
  let ?cs = "seat_counts sha256 epoch S (total_weight ms) ms"
  let ?zs = "zip ?cs (map (\<lambda>m. m\<lparr>Weighted := True\<rparr>) ms)"
  have "c \<in> set ?cs \<Longrightarrow> 0 \<le> c" for c
    using assms by (auto simp: in_set_conv_nth seat_counts_nth base_nonneg)
  then have "int (sum_list (map nat ?cs)) = sum_list ?cs"
    by (rule sum_list_map_nat)
  then have "sum_list (map nat ?cs) = nat S"
    using sum_seat_counts [OF assms, of sha256 epoch] by simp
  moreover have "map (nat \<circ> fst) ?zs = map nat ?cs"
    by (simp flip: map_map)
  moreover have "AllocateEvalPoints sha256 ms S epoch = lay_out 1 ?zs"
    using assms by (simp add: AllocateEvalPoints_def Let_def)
  moreover have "Weighted m" if "(a, m) \<in> set ?zs" for a m
    using that by (auto dest!: set_zip_rightD)
  ultimately show ?thesis by (simp add: lay_out_points)
qed

lemma TotalEvalPoints_Allocate:
  assumes "1 \<le> S" "0 < total_weight ms"
  shows "TotalEvalPoints (AllocateEvalPoints sha256 ms S epoch) = nat S"
  by (simp add: TotalEvalPoints_eq AllocateEvalPoints_domain [OF assms])

text \<open>A member without a positive weight owns nothing.\<close>

lemma unstaked_no_points:
  assumes "1 \<le> S" "0 < total_weight ms" "i < length ms" "\<not> is_staked (ms ! i)"
  shows "points (AllocateEvalPoints sha256 ms S epoch ! i) = 0"
proof -
  have "rem_of S (total_weight ms) (ms ! i) = 0" using assms(4) by (simp add: rem_of_def)
  then have "i \<notin> seated sha256 epoch S ms"
    using seat_has_rem [OF assms(1,2), of i sha256 epoch] by (auto simp: seated_def)
  then have "int (points (AllocateEvalPoints sha256 ms S epoch ! i)) = 0"
    using AllocateEvalPoints_keeps(4) [OF assms(1-3)] assms(4) by (simp add: base_of_def)
  then show ?thesis by simp
qed

text \<open>What rounding can add to the share of a coalition.\<close>

lemma coalition_points:
  assumes "1 \<le> S" "0 < total_weight ms" "C \<subseteq> {..<length ms}"
  shows "total_weight ms * (\<Sum>i\<in>C. int (points (AllocateEvalPoints sha256 ms S epoch ! i)))
    \<le> S * (\<Sum>i\<in>C. stake (ms ! i)) + total_weight ms * int (min (card C) (length ms - 1))"
proof -
  let ?W = "total_weight ms" and ?out = "AllocateEvalPoints sha256 ms S epoch"
  let ?B = "seated sha256 epoch S ms"
  have fin: "finite C" using assms(3) finite_subset by blast
  have fB: "finite ?B" by (simp add: seated_def)
  have "(\<Sum>i\<in>C. int (points (?out ! i))) = (\<Sum>i\<in>C. base_of S ?W (ms ! i) + (if i \<in> ?B then 1 else 0))"
    by (rule sum.cong) (use assms AllocateEvalPoints_keeps(4) [OF assms(1,2)] in auto)
  also have "\<dots> = (\<Sum>i\<in>C. base_of S ?W (ms ! i)) + int (card (C \<inter> ?B))"
    using fin by (simp add: sum.distrib flip: sum.inter_restrict)
  finally have eq: "(\<Sum>i\<in>C. int (points (?out ! i))) = (\<Sum>i\<in>C. base_of S ?W (ms ! i)) + int (card (C \<inter> ?B))" .
  have "?W * base_of S ?W m \<le> S * stake m" for m
    using base_rem [OF assms(1,2), of m] rem_bounds(1) [OF assms(2), of S m] by (simp add: algebra_simps)
  then have "?W * (\<Sum>i\<in>C. base_of S ?W (ms ! i)) \<le> S * (\<Sum>i\<in>C. stake (ms ! i))"
    unfolding sum_distrib_left by (intro sum_mono) simp
  moreover have "card (C \<inter> ?B) \<le> card C" and "card (C \<inter> ?B) \<le> card ?B"
    using fin fB by (auto intro: card_mono)
  then have "int (card (C \<inter> ?B)) \<le> int (min (card C) (length ms - 1))"
    using card_seated [OF assms(1,2), of sha256 epoch] left_over_less_length [OF assms(1,2)] by simp
  then have "?W * int (card (C \<inter> ?B)) \<le> ?W * int (min (card C) (length ms - 1))"
    using assms(2) by (intro mult_left_mono) auto
  ultimately show ?thesis by (simp add: eq distrib_left)
qed

subsection \<open>The threshold\<close>

lemma stakeThreshold_strict:
  assumes "1 \<le> S" "0 < total_weight ms" "8 * int (length ms) \<le> S" "S < 2 ^ 32"
  shows "fst (stakeThreshold (AllocateEvalPoints sha256 ms S epoch) True) = nat (2 * S div 3) + length ms"
proof -
  let ?out = "AllocateEvalPoints sha256 ms S epoch"
  have ne: "ms \<noteq> []" using assms(2) by (auto simp: total_weight_def)
  have "Weighted (?out ! 0)" using AllocateEvalPoints_keeps(1) [OF assms(1,2)] ne by simp
  then have "list_ex Weighted ?out"
    using ne by (metis length_AllocateEvalPoints length_greater_0_conv list_ex_length)
  moreover have "2 * nat S div 3 + length ms \<le> nat S" using assms by linarith
  moreover have "nat S < 2 ^ 32" using assms by simp
  ultimately show ?thesis
    using assms(1) ne
    by (simp add: stakeThreshold_def Let_def TotalEvalPoints_Allocate [OF assms(1,2)] u32_def nat_div_distrib nat_mult_distrib)
qed

lemma below_two_thirds: "3 * p \<le> 2 * S + 3 * (n - 1) \<Longrightarrow> p < 2 * S div 3 + n" for p S n :: int
  by presburger

lemma coalition_below_threshold:
  assumes S: "1 \<le> S" "0 < total_weight ms" and C: "C \<subseteq> {..<length ms}"
    and two_thirds: "3 * (\<Sum>i\<in>C. stake (ms ! i)) \<le> 2 * total_weight ms"
  shows "(\<Sum>i\<in>C. points (AllocateEvalPoints sha256 ms S epoch ! i)) < nat (2 * S div 3) + length ms"
proof -
  let ?W = "total_weight ms"
  let ?p = "\<Sum>i\<in>C. int (points (AllocateEvalPoints sha256 ms S epoch ! i))"
  have "0 < length ms" using S(2) by (auto simp: total_weight_def)
  have "int (min (card C) (length ms - 1)) \<le> int (length ms) - 1" using \<open>0 < length ms\<close> by linarith
  then have "?W * int (min (card C) (length ms - 1)) \<le> ?W * (int (length ms) - 1)"
    using S(2) by (intro mult_left_mono) auto
  then have "?W * ?p \<le> S * (\<Sum>i\<in>C. stake (ms ! i)) + ?W * (int (length ms) - 1)"
    using coalition_points [OF S C, of sha256 epoch] by linarith
  then have "?W * (3 * ?p) \<le> S * (3 * (\<Sum>i\<in>C. stake (ms ! i))) + ?W * (3 * (int (length ms) - 1))"
    by (simp add: algebra_simps)
  also have "\<dots> \<le> S * (2 * ?W) + ?W * (3 * (int (length ms) - 1))"
    using two_thirds S(1) by (intro add_right_mono mult_left_mono) auto
  finally have "?W * (3 * ?p) \<le> ?W * (2 * S + 3 * (int (length ms) - 1))"
    by (simp add: algebra_simps)
  then have "3 * ?p \<le> 2 * S + 3 * (int (length ms) - 1)"
    using S(2) by (simp add: mult_le_cancel_left)
  then have "?p < 2 * S div 3 + int (length ms)" by (rule below_two_thirds)
  moreover have "int (\<Sum>i\<in>C. points (AllocateEvalPoints sha256 ms S epoch ! i)) = ?p" by simp
  moreover have "0 \<le> 2 * S div 3" using S(1) by simp
  ultimately show ?thesis by linarith
qed

subsection \<open>The cheapest coalition: the table against its specification\<close>

definition weight_of :: "round_member \<Rightarrow> int" where
  "weight_of m = weightOrZero (Weight m)"

definition coalition_points_of :: "round_member list \<Rightarrow> nat set \<Rightarrow> nat" where
  "coalition_points_of ms C = (\<Sum>i\<in>C. points (ms ! i))"

definition coalition_stake :: "round_member list \<Rightarrow> nat set \<Rightarrow> int" where
  "coalition_stake ms C = (\<Sum>i\<in>C. weight_of (ms ! i))"

definition costs :: "round_member list \<Rightarrow> nat \<Rightarrow> int set" where
  "costs ms p = {coalition_stake ms C | C. C \<subseteq> {..<length ms} \<and> coalition_points_of ms C = p}"

definition least_of :: "int option \<Rightarrow> int set \<Rightarrow> bool" where
  "least_of v X = (case v of None \<Rightarrow> X = {} | Some x \<Rightarrow> x \<in> X \<and> (\<forall>y\<in>X. x \<le> y))"

definition better :: "int option \<Rightarrow> int option \<Rightarrow> int option" where
  "better a b = (case b of None \<Rightarrow> a | Some c \<Rightarrow>
     (case a of None \<Rightarrow> Some c | Some y \<Rightarrow> if y > c then Some c else Some y))"

lemma least_of_better: "least_of a X \<Longrightarrow> least_of b Y \<Longrightarrow> least_of (better a b) (X \<union> Y)"
  by (auto simp: least_of_def better_def split: option.splits)

lemma least_of_shift: "least_of v X \<Longrightarrow> least_of (map_option (\<lambda>x. x + w) v) ((\<lambda>x. x + w) ` X)"
  by (auto simp: least_of_def split: option.splits)

lemma least_of_None: "least_of None X \<longleftrightarrow> X = {}"
  by (simp add: least_of_def)

lemma better_None [simp]: "better a None = a"
  by (simp add: better_def)

lemma least_of_dominated:
  "least_of v X \<Longrightarrow> (\<And>y. y \<in> Y \<Longrightarrow> \<exists>x\<in>X. x \<le> y) \<Longrightarrow> least_of v (X \<union> Y)"
  unfolding least_of_def by (cases v) (auto, meson order_trans)

lemma coalition_snoc:
  assumes "C \<subseteq> {..<length ms}"
  shows "coalition_points_of (ms @ [m]) C = coalition_points_of ms C"
    "coalition_stake (ms @ [m]) C = coalition_stake ms C"
    "coalition_points_of (ms @ [m]) (insert (length ms) C) = coalition_points_of ms C + points m"
    "coalition_stake (ms @ [m]) (insert (length ms) C) = coalition_stake ms C + weight_of m"
proof -
  have fin: "finite C" and ni: "length ms \<notin> C" using assms finite_subset by auto
  have eq: "(\<Sum>i\<in>C. f ((ms @ [m]) ! i)) = (\<Sum>i\<in>C. f (ms ! i))" for f :: "round_member \<Rightarrow> 'c::comm_monoid_add"
    using assms by (intro sum.cong) (auto simp: nth_append)
  show "coalition_points_of (ms @ [m]) C = coalition_points_of ms C"
    "coalition_stake (ms @ [m]) C = coalition_stake ms C"
    by (simp_all add: coalition_points_of_def coalition_stake_def eq)
  show "coalition_points_of (ms @ [m]) (insert (length ms) C) = coalition_points_of ms C + points m"
    "coalition_stake (ms @ [m]) (insert (length ms) C) = coalition_stake ms C + weight_of m"
    using fin ni by (simp_all add: coalition_points_of_def coalition_stake_def eq add.commute)
qed

lemma subset_lessThan_Suc:
  "C \<subseteq> {..<Suc n} \<longleftrightarrow> C \<subseteq> {..<n} \<or> (\<exists>D. D \<subseteq> {..<n} \<and> C = insert n D)"
  unfolding lessThan_Suc subset_insert_iff
proof (cases "n \<in> C")
  case True
  then have "C = insert n (C - {n})" by blast
  moreover have "\<not> C \<subseteq> {..<n}" using True by auto
  moreover have "insert n D - {n} \<subseteq> {..<n}" if "D \<subseteq> {..<n}" for D using that by blast
  ultimately show "(if n \<in> C then C - {n} \<subseteq> {..<n} else C \<subseteq> {..<n}) \<longleftrightarrow>
    C \<subseteq> {..<n} \<or> (\<exists>D. D \<subseteq> {..<n} \<and> C = insert n D)"
    using True by metis
qed auto

lemma costs_snoc:
  "costs (ms @ [m]) p = costs ms p \<union>
    (if points m \<le> p then (\<lambda>x. x + weight_of m) ` costs ms (p - points m) else {})"
proof -
  have "costs (ms @ [m]) p =
      {coalition_stake (ms @ [m]) C | C. C \<subseteq> {..<length ms} \<and> coalition_points_of (ms @ [m]) C = p} \<union>
      {coalition_stake (ms @ [m]) (insert (length ms) D) | D. D \<subseteq> {..<length ms} \<and>
        coalition_points_of (ms @ [m]) (insert (length ms) D) = p}"
    by (simp only: costs_def length_append_singleton subset_lessThan_Suc) blast
  also have "\<dots> = costs ms p \<union>
      {coalition_stake ms D + weight_of m | D. D \<subseteq> {..<length ms} \<and> coalition_points_of ms D + points m = p}"
    unfolding costs_def
    by (intro arg_cong2 [where f = "(\<union>)"] Collect_cong ex_cong1) (metis coalition_snoc)+
  also have "{coalition_stake ms D + weight_of m | D. D \<subseteq> {..<length ms} \<and> coalition_points_of ms D + points m = p}
      = (if points m \<le> p then (\<lambda>x. x + weight_of m) ` costs ms (p - points m) else {})"
    by (auto simp: costs_def image_iff)
  finally show ?thesis .
qed

lemma coalition_points_mono:
  "C \<subseteq> {..<length ms} \<Longrightarrow> coalition_points_of ms C \<le> sum_list (map points ms)"
proof -
  assume "C \<subseteq> {..<length ms}"
  then have "coalition_points_of ms C \<le> (\<Sum>i<length ms. points (ms ! i))"
    unfolding coalition_points_of_def by (intro sum_mono2) auto
  then show ?thesis by (simp add: sum_list_sum_nth atLeast0LessThan)
qed

lemma costs_empty: "sum_list (map points ms) < p \<Longrightarrow> costs ms p = {}"
  by (auto simp: costs_def dest!: coalition_points_mono)

lemma length_relax [simp]: "length (relax S pts w h dp) = length dp"
  by (simp add: relax_def Let_def split: option.splits)

lemma length_sweep [simp]: "length (sweep S pts w h dp) = length dp"
  by (induction h arbitrary: dp) auto

lemma relax_nth:
  assumes "length dp = S + 1" "h \<le> S" "dp ! h \<noteq> None \<Longrightarrow> h + pts \<le> S" "p \<le> S"
  shows "relax S pts w h dp ! p =
    (if p = h + pts then better (dp ! p) (map_option (\<lambda>x. x + w) (dp ! h)) else dp ! p)"
  using assms by (auto simp: relax_def Let_def better_def nth_list_update split: option.splits)

lemma sweep_nth:
  assumes "length dp = S + 1" "h \<le> S" "\<And>q. q \<le> h \<Longrightarrow> dp ! q \<noteq> None \<Longrightarrow> q + pts \<le> S" "0 < pts" "p \<le> S"
  shows "sweep S pts w h dp ! p =
    (if pts \<le> p \<and> p - pts \<le> h then better (dp ! p) (map_option (\<lambda>x. x + w) (dp ! (p - pts))) else dp ! p)"
  using assms
proof (induction h arbitrary: dp)
  case 0
  then show ?case using relax_nth [of dp S 0 pts p w] by auto
next
  case (Suc h)
  let ?r = "relax S pts w (Suc h) dp"
  have r: "?r ! q = (if q = Suc h + pts then better (dp ! q) (map_option (\<lambda>x. x + w) (dp ! Suc h)) else dp ! q)"
    if "q \<le> S" for q
    using Suc.prems(1,2) Suc.prems(3) [of "Suc h"] that by (intro relax_nth) auto
  have low: "?r ! q = dp ! q" if "q \<le> h" for q using r [of q] that Suc.prems by auto
  have "sweep S pts w h ?r ! p =
      (if pts \<le> p \<and> p - pts \<le> h then better (?r ! p) (map_option (\<lambda>x. x + w) (?r ! (p - pts))) else ?r ! p)"
    using Suc.prems low by (intro Suc.IH) auto
  then show ?case using r [OF \<open>p \<le> S\<close>] low [of "p - pts"] by (auto simp: le_Suc_eq)
qed

definition table_ok :: "nat \<Rightarrow> round_member list \<Rightarrow> int option list \<Rightarrow> bool" where
  "table_ok S ms dp \<longleftrightarrow> length dp = S + 1 \<and> (\<forall>p\<le>S. least_of (dp ! p) (costs ms p))"

lemma table_ok_step:
  assumes ok: "table_ok S ms dp" and bound: "sum_list (map points ms) + points m \<le> S" and w: "0 \<le> weight_of m"
  shows "table_ok S (ms @ [m]) (dp_member S dp m)"
proof (cases "points m = 0")
  case True
  then have "costs (ms @ [m]) p = costs ms p \<union> (\<lambda>x. x + weight_of m) ` costs ms p" for p
    by (simp add: costs_snoc)
  then show ?thesis
    using ok True w
    by (auto simp: table_ok_def dp_member_def points_def intro!: least_of_dominated) (metis le_add_same_cancel1)
next
  case False
  let ?r = "sweep S (points m) (weight_of m) S dp"
  have len: "length dp = S + 1" and least: "\<And>p. p \<le> S \<Longrightarrow> least_of (dp ! p) (costs ms p)"
    using ok by (auto simp: table_ok_def)
  have nocap: "q + points m \<le> S" if "q \<le> S" "dp ! q \<noteq> None" for q
  proof (rule ccontr)
    assume "\<not> q + points m \<le> S"
    then have "costs ms q = {}" using bound by (intro costs_empty) simp
    then show False using least [OF \<open>q \<le> S\<close>] that by (auto simp: least_of_def)
  qed
  have "least_of (?r ! p) (costs (ms @ [m]) p)" if "p \<le> S" for p
  proof -
    have "?r ! p = (if points m \<le> p
        then better (dp ! p) (map_option (\<lambda>x. x + weight_of m) (dp ! (p - points m))) else dp ! p)"
      using sweep_nth [of dp S S "points m" p "weight_of m"] len nocap False that by auto
    then show ?thesis
      using that by (auto simp: costs_snoc intro!: least_of_better least_of_shift least)
  qed
  then show ?thesis
    using False len by (simp add: table_ok_def dp_member_def points_def weight_of_def)
qed

lemma table_ok_dp_table:
  "sum_list (map points ms) \<le> S \<Longrightarrow> (\<And>m. m \<in> set ms \<Longrightarrow> 0 \<le> weight_of m) \<Longrightarrow> table_ok S ms (dp_table S ms)"
proof (induction ms rule: rev_induct)
  case Nil
  have "costs [] p = (if p = 0 then {0} else {})" for p
    by (auto simp: costs_def coalition_points_of_def coalition_stake_def)
  then show ?case
    by (auto simp: table_ok_def dp_table_def least_of_def nth_list_update split: option.splits)
next
  case (snoc m ms)
  then have "table_ok S (ms @ [m]) (dp_member S (dp_table S ms) m)"
    by (intro table_ok_step) auto
  then show ?case by (simp add: dp_table_def)
qed

lemma TotalEvalPoints_points: "TotalEvalPoints ms = sum_list (map points ms)"
  by (simp add: TotalEvalPoints_eq length_concat o_def flip: points_def)

lemma coalitionBelowTwoThirdsCanDecrypt_iff:
  assumes "list_all Weighted ms" "\<And>m. m \<in> set ms \<Longrightarrow> 0 \<le> weight_of m"
    "0 < sum_list (map weight_of ms)" "0 < t"
  shows "coalitionBelowTwoThirdsCanDecrypt ms t \<longleftrightarrow>
    (\<exists>C \<subseteq> {..<length ms}. t \<le> coalition_points_of ms C \<and>
      3 * coalition_stake ms C \<le> 2 * sum_list (map weight_of ms))"
proof -
  let ?S = "TotalEvalPoints ms" and ?W = "sum_list (map weight_of ms)"
  let ?cheap = "\<lambda>p. case dp_table ?S ms ! p of None \<Rightarrow> False | Some x \<Rightarrow> \<not> x * 3 > ?W * 2"
  have tab: "least_of (dp_table ?S ms ! p) (costs ms p)" if "p \<le> ?S" for p
    using table_ok_dp_table [of ms ?S] assms(2) that by (auto simp: table_ok_def TotalEvalPoints_points)
  have cheap: "?cheap p \<longleftrightarrow> (\<exists>x\<in>costs ms p. 3 * x \<le> 2 * ?W)" if "p \<le> ?S" for p
    using tab [OF that] by (cases "dp_table ?S ms ! p") (auto simp: least_of_def, force)
  have le: "coalition_points_of ms C \<le> ?S" if "C \<subseteq> {..<length ms}" for C
    using coalition_points_mono [OF that] by (simp add: TotalEvalPoints_points)
  have W: "sum_list (map (\<lambda>m. weightOrZero (Weight m)) ms) = ?W"
    by (simp flip: weight_of_def)
  have "coalitionBelowTwoThirdsCanDecrypt ms t \<longleftrightarrow> (\<exists>p. t \<le> p \<and> p \<le> ?S \<and> ?cheap p)"
  proof -
    have "\<not> list_ex (\<lambda>m. \<not> Weighted m) ms" using assms(1) by (simp add: list_ex_iff list_all_iff)
    then have "coalitionBelowTwoThirdsCanDecrypt ms t \<longleftrightarrow> ?S \<noteq> 0 \<and> t \<le> ?S \<and> list_ex ?cheap [t..<?S + 1]"
      using assms(3,4) by (simp add: coalitionBelowTwoThirdsCanDecrypt_def Let_def W not_less)
    then show ?thesis using assms(4) by (force simp: list_ex_iff)
  qed
  also have "\<dots> \<longleftrightarrow> (\<exists>p. t \<le> p \<and> p \<le> ?S \<and> (\<exists>x\<in>costs ms p. 3 * x \<le> 2 * ?W))"
    using cheap by blast
  also have "\<dots> \<longleftrightarrow> (\<exists>C \<subseteq> {..<length ms}. t \<le> coalition_points_of ms C \<and> 3 * coalition_stake ms C \<le> 2 * ?W)"
    using le unfolding costs_def by blast
  finally show ?thesis .
qed

subsection \<open>Apportionment, threshold and guard together\<close>

lemma weight_of_stake: "0 \<le> weight_of m \<Longrightarrow> stake m = weight_of m"
  by (auto simp: stake_def weight_of_def is_staked_def weightOrZero_def split: option.splits)

lemma total_weight_of:
  "(\<And>m. m \<in> set ms \<Longrightarrow> 0 \<le> weight_of m) \<Longrightarrow> total_weight ms = sum_list (map weight_of ms)"
  by (auto simp: total_weight_eq weight_of_stake intro!: arg_cong [where f = sum_list])

lemma coalition_stake_stake:
  "(\<And>m. m \<in> set ms \<Longrightarrow> 0 \<le> weight_of m) \<Longrightarrow> C \<subseteq> {..<length ms} \<Longrightarrow>
    coalition_stake ms C = (\<Sum>i\<in>C. stake (ms ! i))"
  unfolding coalition_stake_def by (intro sum.cong) (auto simp: weight_of_stake)

lemma AllocateEvalPoints_weight:
  assumes "1 \<le> S" "0 < total_weight ms"
  shows "map weight_of (AllocateEvalPoints sha256 ms S epoch) = map weight_of ms"
    "list_all Weighted (AllocateEvalPoints sha256 ms S epoch)"
  using AllocateEvalPoints_keeps(1,2) [OF assms]
  by (auto simp: weight_of_def list_all_length intro!: nth_equalityI)

lemma coalition_stake_map:
  "map weight_of ms = map weight_of ns \<Longrightarrow> C \<subseteq> {..<length ms} \<Longrightarrow> coalition_stake ms C = coalition_stake ns C"
proof -
  assume eq: "map weight_of ms = map weight_of ns" and C: "C \<subseteq> {..<length ms}"
  have "weight_of (ms ! i) = weight_of (ns ! i)" if "i \<in> C" for i
    using that C eq by (metis length_map lessThan_iff nth_map subsetD)
  then show ?thesis by (simp add: coalition_stake_def)
qed

lemma strict_threshold_holds:
  assumes "1 \<le> S" "0 < total_weight ms" "8 * int (length ms) \<le> S" "S < 2 ^ 32"
    "\<And>m. m \<in> set ms \<Longrightarrow> 0 \<le> weight_of m"
    "C \<subseteq> {..<length ms}" "3 * coalition_stake ms C \<le> 2 * sum_list (map weight_of ms)"
  shows "coalition_points_of (AllocateEvalPoints sha256 ms S epoch) C
    < fst (stakeThreshold (AllocateEvalPoints sha256 ms S epoch) True)"
  using coalition_below_threshold [OF assms(1,2,6), of sha256 epoch] assms(7)
  by (simp add: coalition_points_of_def stakeThreshold_strict [OF assms(1-4)]
      total_weight_of [OF assms(5)] coalition_stake_stake [OF assms(5,6)])

text \<open>The scan over the members.\<close>

lemma concentration_scan_weighted:
  "list_all Weighted ms \<Longrightarrow> concentration_scan t bar ms =
    (if \<exists>m\<in>set ms. t \<le> u32 (points m) \<or> 0 < bar \<and> bar \<le> points m then Some True else None)"
  by (induction ms) (auto simp: Let_def points_def)

lemma points_le_total: "m \<in> set ms \<Longrightarrow> points m \<le> TotalEvalPoints ms"
  by (simp add: TotalEvalPoints_points member_le_sum_list)

lemma breached_weighted:
  assumes rec: "epoch \<noteq> 0" "GetActiveKey epoch = Some ak" "GetDkgRound epoch = Some r"
    and com: "Members r \<noteq> []" "list_all Weighted (Members r)" "\<And>m. m \<in> set (Members r) \<Longrightarrow> 0 \<le> weight_of m"
      "0 < sum_list (map weight_of (Members r))"
    and thr: "0 < ak_Threshold ak" "ak_Threshold ak \<le> TotalEvalPoints (Members r)" "TotalEvalPoints (Members r) < 2 ^ 32"
  shows "CommitteeConcentrationBreached GetActiveKey GetDkgRound epoch strict \<longleftrightarrow>
    (\<exists>m\<in>set (Members r). ak_Threshold ak \<le> points m) \<or>
    strict \<and> (\<exists>m\<in>set (Members r). TotalEvalPoints (Members r) - points m < ak_Threshold ak) \<or>
    (\<exists>C \<subseteq> {..<length (Members r)}. ak_Threshold ak \<le> coalition_points_of (Members r) C \<and>
      3 * coalition_stake (Members r) C \<le> 2 * sum_list (map weight_of (Members r)))"
proof -
  let ?S = "TotalEvalPoints (Members r)" and ?t = "ak_Threshold ak"
  let ?bar = "if strict then ?S - ?t + 1 else 0"
  have u: "u32 (points m) = points m" if "m \<in> set (Members r)" for m
    using points_le_total [OF that] thr(3) by (simp add: u32_def)
  have "(if strict then if ?S + 1 > ?t then ?S - ?t + 1 else 0 else 0) = ?bar"
    using thr(2) by simp
  moreover have "0 < ?bar \<and> ?bar \<le> points m \<longleftrightarrow> strict \<and> ?S - points m < ?t" if "m \<in> set (Members r)" for m
    using points_le_total [OF that] thr(1,2) by auto
  ultimately have scan: "concentration_scan ?t (if strict then if ?S + 1 > ?t then ?S - ?t + 1 else 0 else 0) (Members r) =
      (if \<exists>m\<in>set (Members r). ?t \<le> points m \<or> strict \<and> ?S - points m < ?t then Some True else None)"
    using u by (simp only: concentration_scan_weighted [OF com(2)] cong: bex_cong)
  have dp: "coalitionBelowTwoThirdsCanDecrypt (Members r) ?t \<longleftrightarrow>
    (\<exists>C \<subseteq> {..<length (Members r)}. ?t \<le> coalition_points_of (Members r) C \<and>
      3 * coalition_stake (Members r) C \<le> 2 * sum_list (map weight_of (Members r)))"
    by (rule coalitionBelowTwoThirdsCanDecrypt_iff [OF com(2-4) thr(1)])
  have "CommitteeConcentrationBreached GetActiveKey GetDkgRound epoch strict \<longleftrightarrow>
      (\<exists>m\<in>set (Members r). ?t \<le> points m \<or> strict \<and> ?S - points m < ?t) \<or>
      coalitionBelowTwoThirdsCanDecrypt (Members r) ?t"
    using rec com(1) thr(1) by (simp add: CommitteeConcentrationBreached_def Let_def scan) blast
  then show ?thesis unfolding dp by blast
qed

subsection \<open>Properties\<close>

text \<open>
  (C12) The apportionment hands out the points 1 to the budget, each exactly once and in
  contiguous blocks; a member gets its exact quota rounded down, or one point more; and a member
  without positive stake gets none.
\<close>

theorem allocate_partition:
  assumes "1 \<le> budget" and "0 < total_weight ms"
  shows "concat (map OwnedEvalPoints (AllocateEvalPoints sha256 ms budget epoch)) = [1..<Suc (nat budget)] \<and>
    (\<forall>i<length ms.
      (let q = stake (ms ! i) * budget div total_weight ms;
           p = int (length (OwnedEvalPoints (AllocateEvalPoints sha256 ms budget epoch ! i)))
       in q \<le> p \<and> p \<le> q + 1) \<and>
      (\<not> is_staked (ms ! i) \<longrightarrow> OwnedEvalPoints (AllocateEvalPoints sha256 ms budget epoch ! i) = []))"
proof (intro conjI allI impI)
  show "concat (map OwnedEvalPoints (AllocateEvalPoints sha256 ms budget epoch)) = [1..<Suc (nat budget)]"
    by (rule AllocateEvalPoints_domain [OF assms])
next
  fix i assume i: "i < length ms"
  have "base_of budget (total_weight ms) (ms ! i) = stake (ms ! i) * budget div total_weight ms"
    using base_rem [OF assms, of "ms ! i"] rem_bounds [OF assms(2), of budget "ms ! i"]
    by (intro int_div_pos_eq [symmetric]) (simp_all add: algebra_simps)
  then show "let q = stake (ms ! i) * budget div total_weight ms;
           p = int (length (OwnedEvalPoints (AllocateEvalPoints sha256 ms budget epoch ! i)))
       in q \<le> p \<and> p \<le> q + 1"
    using AllocateEvalPoints_keeps(4) [OF assms i, of sha256 epoch] by (simp add: points_def)
next
  fix i assume "i < length ms" "\<not> is_staked (ms ! i)"
  then show "OwnedEvalPoints (AllocateEvalPoints sha256 ms budget epoch ! i) = []"
    using unstaked_no_points [OF assms] by (simp add: points_def)
qed

definition sample_member :: "nat \<Rightarrow> int option \<Rightarrow> round_member" where
  "sample_member i w = \<lparr>Index = i, OperatorAddr = ''op'', AccountAddr = ''acc'', EncPubKey = [], Weight = w,
     EvalPoints = [], Weighted = False\<rparr>"

theorem allocate_partition_witness:
  "concat (map OwnedEvalPoints (AllocateEvalPoints (\<lambda>b. b)
     [sample_member 1 (Some 5), sample_member 2 (Some 2), sample_member 3 None] 10 7)) = [1..<11]"
  using allocate_partition [of 10 "[sample_member 1 (Some 5), sample_member 2 (Some 2), sample_member 3 None]" "\<lambda>b. b" 7]
  by (simp add: total_weight_def is_staked_def weightOrZero_def sample_member_def eval_nat_numeral)

text \<open>
  (C2) With the strict threshold and at least eight points per member, no set of members that
  holds at most two thirds of the stake owns enough points to decrypt.
\<close>

theorem strict_threshold_safe:
  assumes "8 * int (length ms) \<le> budget" and "budget < 2 ^ 32" and "0 < sum_list (map weight_of ms)"
    and "\<forall>m\<in>set ms. 0 \<le> weight_of m"
    and "C \<subseteq> {..<length ms}" and "3 * coalition_stake ms C \<le> 2 * sum_list (map weight_of ms)"
  shows "coalition_points_of (AllocateEvalPoints sha256 ms budget epoch) C
    < fst (stakeThreshold (AllocateEvalPoints sha256 ms budget epoch) True)"
proof (rule strict_threshold_holds)
  show "0 < total_weight ms" using assms(3,4) by (simp add: total_weight_of)
  have "ms \<noteq> []" using assms(3) by auto
  then show "1 \<le> budget" using assms(1) by (cases ms) auto
qed (use assms in auto)

theorem strict_threshold_safe_witness:
  "coalition_points_of (AllocateEvalPoints (\<lambda>b. b) [sample_member 1 (Some 2), sample_member 2 (Some 1)] 16 7) {0}
    < fst (stakeThreshold (AllocateEvalPoints (\<lambda>b. b) [sample_member 1 (Some 2), sample_member 2 (Some 1)] 16 7) True)"
  by (rule strict_threshold_safe)
    (auto simp: weight_of_def weightOrZero_def sample_member_def coalition_stake_def)

text \<open>
  (C1) The dynamic programme of the concentration guard decides exactly the question it is
  asked: whether some set of members owns at least the threshold of points with at most two
  thirds of the stake.
\<close>

theorem coalition_search_exact:
  assumes "list_all Weighted ms" and "\<forall>m\<in>set ms. 0 \<le> weight_of m"
    and "0 < sum_list (map weight_of ms)" and "0 < threshold"
  shows "coalitionBelowTwoThirdsCanDecrypt ms threshold \<longleftrightarrow>
    (\<exists>C \<subseteq> {..<length ms}. threshold \<le> coalition_points_of ms C \<and>
      3 * coalition_stake ms C \<le> 2 * sum_list (map weight_of ms))"
  by (rule coalitionBelowTwoThirdsCanDecrypt_iff) (use assms in auto)

theorem coalition_search_exact_witness:
  "coalitionBelowTwoThirdsCanDecrypt
     [(sample_member 1 (Some 3))\<lparr>Weighted := True, EvalPoints := [1]\<rparr>,
      (sample_member 2 (Some 1))\<lparr>Weighted := True, EvalPoints := [2, 3]\<rparr>] 2"
proof -
  let ?ms = "[(sample_member 1 (Some 3))\<lparr>Weighted := True, EvalPoints := [1]\<rparr>,
      (sample_member 2 (Some 1))\<lparr>Weighted := True, EvalPoints := [2, 3]\<rparr>]"
  have "2 \<le> coalition_points_of ?ms {1}" "3 * coalition_stake ?ms {1} \<le> 2 * sum_list (map weight_of ?ms)" "{1} \<subseteq> {..<length ?ms}"
    by (simp_all add: coalition_points_of_def coalition_stake_def points_def OwnedEvalPoints_def
        weight_of_def weightOrZero_def sample_member_def)
  then have "\<exists>C \<subseteq> {..<length ?ms}. 2 \<le> coalition_points_of ?ms C \<and>
      3 * coalition_stake ?ms C \<le> 2 * sum_list (map weight_of ?ms)" by blast
  then show ?thesis
    by (subst coalition_search_exact) (simp_all add: weight_of_def weightOrZero_def sample_member_def)
qed

text \<open>
  (C3) The strict guard refuses an epoch exactly when one operator owns a threshold of points,
  or the committee without one operator is short of the threshold, or a set of members with at
  most two thirds of the stake owns a threshold of points.
\<close>

theorem guard_exact:
  assumes "epoch \<noteq> 0" and "GetActiveKey epoch = Some ak" and "GetDkgRound epoch = Some r"
    and "list_all Weighted (Members r)" and "\<forall>m\<in>set (Members r). 0 \<le> weight_of m"
    and "0 < sum_list (map weight_of (Members r))"
    and "0 < ak_Threshold ak" and "ak_Threshold ak \<le> TotalEvalPoints (Members r)"
    and "TotalEvalPoints (Members r) < 2 ^ 32"
  shows "CommitteeConcentrationBreached GetActiveKey GetDkgRound epoch True \<longleftrightarrow>
    (\<exists>m\<in>set (Members r). ak_Threshold ak \<le> points m) \<or>
    (\<exists>m\<in>set (Members r). TotalEvalPoints (Members r) - points m < ak_Threshold ak) \<or>
    (\<exists>C \<subseteq> {..<length (Members r)}. ak_Threshold ak \<le> coalition_points_of (Members r) C \<and>
      3 * coalition_stake (Members r) C \<le> 2 * sum_list (map weight_of (Members r)))"
proof -
  have "Members r \<noteq> []" using assms(6) by auto
  then show ?thesis
    using breached_weighted [where GetActiveKey = GetActiveKey and GetDkgRound = GetDkgRound and strict = True,
        OF assms(1,2,3) _ assms(4) _ assms(6-9)] assms(5) by simp
qed

definition sample_round :: dkg_round where
  "sample_round = \<lparr>dr_Epoch = 1, OpenHeight = 1, DealDeadline = 2, ComplaintDeadline = 3,
     Members = [(sample_member 1 (Some 2))\<lparr>Weighted := True, EvalPoints := [1, 2]\<rparr>,
       (sample_member 2 (Some 1))\<lparr>Weighted := True, EvalPoints := [3]\<rparr>],
     dr_Threshold = 3, MembersHash = [], Status = DkgStatusActive, Attempt = 0\<rparr>"

definition sample_key :: active_key where
  "sample_key = \<lparr>ak_Epoch = 1, Pub = [], PublicCommitments = [], ak_Threshold = 3, Qual = [1, 2]\<rparr>"

theorem guard_exact_witness:
  "CommitteeConcentrationBreached [1 \<mapsto> sample_key] [1 \<mapsto> sample_round] 1 True"
  by (subst guard_exact [where ak = sample_key and r = sample_round])
    (auto simp: sample_key_def sample_round_def sample_member_def weight_of_def weightOrZero_def
      points_def OwnedEvalPoints_def)

text \<open>
  (C13) A committee apportioned with at least eight points per member, with the strict
  threshold, never trips the two-thirds coalition check.
\<close>

theorem allocation_passes_coalition_check:
  assumes "8 * int (length ms) \<le> budget" and "budget < 2 ^ 32" and "0 < sum_list (map weight_of ms)"
    and "\<forall>m\<in>set ms. 0 \<le> weight_of m"
  shows "\<not> coalitionBelowTwoThirdsCanDecrypt (AllocateEvalPoints sha256 ms budget epoch)
    (fst (stakeThreshold (AllocateEvalPoints sha256 ms budget epoch) True))"
proof -
  let ?out = "AllocateEvalPoints sha256 ms budget epoch"
  have ne: "ms \<noteq> []" using assms(3) by auto
  then have b: "1 \<le> budget" using assms(1) by (cases ms) auto
  have w: "0 < total_weight ms" using assms(3,4) by (simp add: total_weight_of)
  note out = AllocateEvalPoints_weight [OF b w, of sha256 epoch]
  have nonneg: "0 \<le> weight_of m" if "m \<in> set ?out" for m
    using that assms(4) out(1) by (metis (no_types, lifting) image_eqI imageE list.set_map)
  have lt: "coalition_points_of ?out C < fst (stakeThreshold ?out True)"
    if "C \<subseteq> {..<length ?out}" "3 * coalition_stake ?out C \<le> 2 * sum_list (map weight_of ?out)" for C
    using that assms out(1) by (intro strict_threshold_holds [OF b w]) (auto simp: coalition_stake_map [OF out(1)])
  have "0 < sum_list (map weight_of ?out)" using assms(3) out(1) by simp
  moreover have "0 < fst (stakeThreshold ?out True)"
    using ne by (simp add: stakeThreshold_strict [OF b w assms(1,2)])
  ultimately show ?thesis
    using lt by (simp add: coalitionBelowTwoThirdsCanDecrypt_iff [OF out(2) nonneg] not_le del: length_AllocateEvalPoints) (meson not_le)
qed

theorem allocation_passes_coalition_check_witness:
  "\<not> coalitionBelowTwoThirdsCanDecrypt (AllocateEvalPoints (\<lambda>b. b) [sample_member 1 (Some 2), sample_member 2 (Some 1)] 16 7)
    (fst (stakeThreshold (AllocateEvalPoints (\<lambda>b. b) [sample_member 1 (Some 2), sample_member 2 (Some 1)] 16 7) True))"
  by (rule allocation_passes_coalition_check)
    (auto simp: weight_of_def weightOrZero_def sample_member_def)

end
