(* ===== verification/SponsorPool.thy ===== *)
theory SponsorPool
  imports KVStore Squeeze
begin

text \<open>
  \<open>x/sponsorpool\<close> and its precompile: developers deposit coins that pay the gas of one
  contract, transactions to that contract draw the escrow down, and a sponsor takes back what
  was not spent. The escrow of a contract and the contribution of each sponsor are decimal
  strings under byte keys of one store; the coins themselves are in the gas pool's account.
  A run of the module is a sequence of its operations, with the rest of the chain changing the
  bank in between.
\<close>

subsection \<open>Parameters\<close>

record sponsorpool_params =
  sp_Enabled :: bool
  PerTxCap :: string

record sponsorpool_store =
  sp_ParamsKey :: "sponsorpool_params blob option"
  sp_kv :: "bytes \<Rightarrow> string option"

definition EscrowPrefix :: bytes where "EscrowPrefix = [1]"
definition ContribPrefix :: bytes where "ContribPrefix = [2]"

definition DefaultParams_sponsorpool :: sponsorpool_params where
  "DefaultParams_sponsorpool = \<lparr>sp_Enabled = True, PerTxCap = ''1000000000000000000000''\<rparr>"

definition Validate_sponsorpool :: "sdk_math \<Rightarrow> sponsorpool_params \<Rightarrow> unit result" where
  "Validate_sponsorpool M p =
    (if PerTxCap p \<noteq> [] \<and> NewIntFromString M (PerTxCap p) = None then Inl (Error ''invalid per_tx_cap'')
     else Inr ())"

definition SetParams_sponsorpool :: "sponsorpool_store \<Rightarrow> sponsorpool_params \<Rightarrow> sponsorpool_store" where
  "SetParams_sponsorpool st p = st\<lparr>sp_ParamsKey := Some (Json p)\<rparr>"

definition GetParams_sponsorpool :: "sponsorpool_store \<Rightarrow> sponsorpool_params" where
  "GetParams_sponsorpool st = read_or DefaultParams_sponsorpool (sp_ParamsKey st)"

definition InitGenesis_sponsorpool :: "sponsorpool_store \<Rightarrow> sponsorpool_params \<Rightarrow> sponsorpool_store" where
  "InitGenesis_sponsorpool st gs = SetParams_sponsorpool st gs"

definition ExportGenesis_sponsorpool :: "sponsorpool_store \<Rightarrow> sponsorpool_params" where
  "ExportGenesis_sponsorpool st = GetParams_sponsorpool st"

interpretation sponsorpool: params_store SetParams_sponsorpool GetParams_sponsorpool
  by unfold_locales (simp_all add: SetParams_sponsorpool_def GetParams_sponsorpool_def)

subsection \<open>Keys and amounts\<close>

definition escrowKey :: "string \<Rightarrow> bytes" where
  "escrowKey contract = EscrowPrefix @ str_bytes (ToLower contract)"

definition contribKey :: "addr \<Rightarrow> string \<Rightarrow> bytes" where
  "contribKey sponsor contract = ContribPrefix @ str_bytes sponsor @ str_bytes (ToLower contract)"

definition getInt :: "sdk_math \<Rightarrow> sponsorpool_store \<Rightarrow> bytes \<Rightarrow> int" where
  "getInt M st key = read_int M (sp_kv st key)"

definition setInt :: "sdk_math \<Rightarrow> sponsorpool_store \<Rightarrow> bytes \<Rightarrow> int \<Rightarrow> sponsorpool_store" where
  "setInt M st key v =
    (if \<not> 0 < v then st\<lparr>sp_kv := (sp_kv st)(key := None)\<rparr>
     else st\<lparr>sp_kv := (sp_kv st)(key := Some (IntString M v))\<rparr>)"

definition EscrowOf :: "sdk_math \<Rightarrow> sponsorpool_store \<Rightarrow> string \<Rightarrow> int" where
  "EscrowOf M st contract = getInt M st (escrowKey contract)"

definition ContributionOf :: "sdk_math \<Rightarrow> sponsorpool_store \<Rightarrow> addr \<Rightarrow> string \<Rightarrow> int" where
  "ContributionOf M st sponsor contract = getInt M st (contribKey sponsor contract)"

subsection \<open>Operations\<close>

abbreviation "ErrBadAmount \<equiv> Error ''amount must be positive''"
abbreviation "ErrInsufficientContribution \<equiv> Error ''withdraw exceeds your contribution''"
abbreviation "ErrInsufficientEscrow \<equiv> Error ''escrow has already been spent on gas''"

definition DepositFrom ::
    "'b bank \<Rightarrow> sdk_math \<Rightarrow> string \<Rightarrow> addr \<Rightarrow> addr \<Rightarrow> string \<Rightarrow> int \<Rightarrow>
     'b \<times> sponsorpool_store \<Rightarrow> ('b \<times> sponsorpool_store) result" where
  "DepositFrom bk M poolModule payer sponsor contract amt = (\<lambda>(b, st).
    if \<not> 0 < amt then Inl ErrBadAmount
    else and_then (SendCoinsFromAccountToModule bk b payer poolModule (NewCoins FeeDenom amt)) (\<lambda>b'.
      let st1 = setInt M st (escrowKey contract) (EscrowOf M st contract + amt);
          st2 = setInt M st1 (contribKey sponsor contract) (ContributionOf M st1 sponsor contract + amt)
      in Inr (b', st2)))"

definition Deposit ::
    "'b bank \<Rightarrow> sdk_math \<Rightarrow> string \<Rightarrow> addr \<Rightarrow> string \<Rightarrow> int \<Rightarrow>
     'b \<times> sponsorpool_store \<Rightarrow> ('b \<times> sponsorpool_store) result" where
  "Deposit bk M poolModule sponsor contract amt = (\<lambda>(b, st).
    if \<not> 0 < amt then Inl ErrBadAmount
    else and_then (SendCoinsFromAccountToModule bk b sponsor poolModule (NewCoins FeeDenom amt)) (\<lambda>b'.
      let st1 = setInt M st (escrowKey contract) (EscrowOf M st contract + amt);
          st2 = setInt M st1 (contribKey sponsor contract) (ContributionOf M st1 sponsor contract + amt)
      in Inr (b', st2)))"

definition Withdraw ::
    "'b bank \<Rightarrow> sdk_math \<Rightarrow> string \<Rightarrow> addr \<Rightarrow> string \<Rightarrow> int \<Rightarrow>
     'b \<times> sponsorpool_store \<Rightarrow> ('b \<times> sponsorpool_store) result" where
  "Withdraw bk M poolModule sponsor contract amt = (\<lambda>(b, st).
    if \<not> 0 < amt then Inl ErrBadAmount
    else
      let contrib = ContributionOf M st sponsor contract;
          escrow = EscrowOf M st contract in
      if amt > contrib then Inl ErrInsufficientContribution
      else if amt > escrow then Inl ErrInsufficientEscrow
      else and_then (SendCoinsFromModuleToAccount bk b poolModule sponsor (NewCoins FeeDenom amt)) (\<lambda>b'.
        let st1 = setInt M st (escrowKey contract) (escrow - amt);
            st2 = setInt M st1 (contribKey sponsor contract) (contrib - amt)
        in Inr (b', st2)))"

definition Reserve ::
    "sdk_math \<Rightarrow> string \<Rightarrow> int \<Rightarrow> sponsorpool_store \<Rightarrow> bool \<times> sponsorpool_store" where
  "Reserve M contract fee st =
    (let p = GetParams_sponsorpool st in
     if \<not> sp_Enabled p \<or> \<not> 0 < fee then (False, st)
     else if (case NewIntFromString M (PerTxCap p) of None \<Rightarrow> False | Some c \<Rightarrow> 0 < c \<and> fee > c) then (False, st)
     else
       let escrow = EscrowOf M st contract in
       if escrow < fee then (False, st)
       else (True, setInt M st (escrowKey contract) (escrow - fee)))"

subsection \<open>The precompile\<close>

text \<open>
  A call after its calldata is decoded: the method with its arguments, addresses as their hex
  form for a contract and as their bytes for an account. A method that writes is refused in a
  read-only call; the two views return an amount.
\<close>

datatype sponsorpool_call =
    DepositMethod string int
  | WithdrawMethod string int
  | EscrowOfMethod string
  | ContributionOfMethod addr string

datatype sponsorpool_output = PackBool bool | PackInt int

definition IsTransaction_sponsorpool :: "sponsorpool_call \<Rightarrow> bool" where
  "IsTransaction_sponsorpool c =
    (case c of DepositMethod _ _ \<Rightarrow> True | WithdrawMethod _ _ \<Rightarrow> True | _ \<Rightarrow> False)"

definition Execute_sponsorpool ::
    "'b bank \<Rightarrow> sdk_math \<Rightarrow> string \<Rightarrow> addr \<Rightarrow> bool \<Rightarrow> sponsorpool_call \<Rightarrow>
     'b \<times> sponsorpool_store \<Rightarrow> (sponsorpool_output \<times> 'b \<times> sponsorpool_store) result" where
  "Execute_sponsorpool bk M poolModule caller readOnly call s =
    (if readOnly \<and> IsTransaction_sponsorpool call then Inl (Error ''write protection'')
     else case call of
       DepositMethod target amount \<Rightarrow>
         and_then (Deposit bk M poolModule caller (ToLower target) amount s) (\<lambda>s'. Inr (PackBool True, s'))
     | WithdrawMethod target amount \<Rightarrow>
         and_then (Withdraw bk M poolModule caller (ToLower target) amount s) (\<lambda>s'. Inr (PackBool True, s'))
     | EscrowOfMethod target \<Rightarrow> Inr (PackInt (EscrowOf M (snd s) (ToLower target)), s)
     | ContributionOfMethod sponsor target \<Rightarrow>
         Inr (PackInt (ContributionOf M (snd s) sponsor (ToLower target)), s))"

subsection \<open>Runs\<close>

datatype sponsorpool_op =
    DepositOp addr string int
  | DepositFromOp addr addr string int
  | WithdrawOp addr string int
  | ReserveOp string int
  | SetParamsOp sponsorpool_params

definition sponsorpool_exec ::
    "'b bank \<Rightarrow> sdk_math \<Rightarrow> string \<Rightarrow> sponsorpool_op \<Rightarrow> 'b \<times> sponsorpool_store \<Rightarrow> ('b \<times> sponsorpool_store) result" where
  "sponsorpool_exec bk M poolModule op = (\<lambda>(b, st). case op of
      DepositOp sponsor c amt \<Rightarrow> Deposit bk M poolModule sponsor c amt (b, st)
    | DepositFromOp payer sponsor c amt \<Rightarrow> DepositFrom bk M poolModule payer sponsor c amt (b, st)
    | WithdrawOp sponsor c amt \<Rightarrow> Withdraw bk M poolModule sponsor c amt (b, st)
    | ReserveOp c fee \<Rightarrow> (case Reserve M c fee st of
          (ok, st') \<Rightarrow> if ok then Inr (b, st') else Inl (Error ''declined''))
    | SetParamsOp p \<Rightarrow> Inr (b, SetParams_sponsorpool st p))"

text \<open>
  The operations that took effect, in order. A failed one leaves no trace; anything else on the
  chain may change the bank but not this store.
\<close>

inductive sponsorpool_run ::
    "'b bank \<Rightarrow> sdk_math \<Rightarrow> string \<Rightarrow> sponsorpool_store \<Rightarrow> sponsorpool_op list \<Rightarrow> 'b \<Rightarrow> sponsorpool_store \<Rightarrow> bool"
  for bk :: "'b bank" and M poolModule st0 where
  start: "sponsorpool_run bk M poolModule st0 [] b st0"
| op: "sponsorpool_run bk M poolModule st0 ops b st \<Longrightarrow>
    sponsorpool_exec bk M poolModule op (b, st) = Inr (b', st') \<Longrightarrow>
    sponsorpool_run bk M poolModule st0 (ops @ [op]) b' st'"
| other: "sponsorpool_run bk M poolModule st0 ops b st \<Longrightarrow> sponsorpool_run bk M poolModule st0 ops b' st"

text \<open>What the operations add up to, per contract and per sponsor.\<close>

definition deposited :: "string \<Rightarrow> sponsorpool_op list \<Rightarrow> int" where
  "deposited c ops = sum_list (map (\<lambda>op. case op of
      DepositOp _ c' a \<Rightarrow> if ToLower c' = ToLower c then a else 0
    | DepositFromOp _ _ c' a \<Rightarrow> if ToLower c' = ToLower c then a else 0 | _ \<Rightarrow> 0) ops)"

definition withdrawn :: "string \<Rightarrow> sponsorpool_op list \<Rightarrow> int" where
  "withdrawn c ops = sum_list (map (\<lambda>op. case op of
      WithdrawOp _ c' a \<Rightarrow> if ToLower c' = ToLower c then a else 0 | _ \<Rightarrow> 0) ops)"

definition reserved :: "string \<Rightarrow> sponsorpool_op list \<Rightarrow> int" where
  "reserved c ops = sum_list (map (\<lambda>op. case op of
      ReserveOp c' a \<Rightarrow> if ToLower c' = ToLower c then a else 0 | _ \<Rightarrow> 0) ops)"

definition deposited_by :: "addr \<Rightarrow> string \<Rightarrow> sponsorpool_op list \<Rightarrow> int" where
  "deposited_by s c ops = sum_list (map (\<lambda>op. case op of
      DepositOp s' c' a \<Rightarrow> if s' = s \<and> ToLower c' = ToLower c then a else 0
    | DepositFromOp _ s' c' a \<Rightarrow> if s' = s \<and> ToLower c' = ToLower c then a else 0 | _ \<Rightarrow> 0) ops)"

definition withdrawn_by :: "addr \<Rightarrow> string \<Rightarrow> sponsorpool_op list \<Rightarrow> int" where
  "withdrawn_by s c ops = sum_list (map (\<lambda>op. case op of
      WithdrawOp s' c' a \<Rightarrow> if s' = s \<and> ToLower c' = ToLower c then a else 0 | _ \<Rightarrow> 0) ops)"

text \<open>The contract an operation names, and the length of a hex address, \<open>0x\<close> and 40 digits.\<close>

definition names_hex :: "sponsorpool_op \<Rightarrow> bool" where
  "names_hex op = (case op of DepositOp _ c _ \<Rightarrow> length c = 42 | DepositFromOp _ _ c _ \<Rightarrow> length c = 42
     | WithdrawOp _ c _ \<Rightarrow> length c = 42 | ReserveOp c _ \<Rightarrow> length c = 42 | SetParamsOp _ \<Rightarrow> True)"

subsection \<open>The keys do not collide\<close>

lemma length_str_bytes [simp]: "length (str_bytes s) = length s"
  by (simp add: str_bytes_def)

lemma escrowKey_inj [simp]: "escrowKey c = escrowKey c' \<longleftrightarrow> ToLower c = ToLower c'"
  by (simp add: escrowKey_def)

lemma escrowKey_contribKey [simp]: "escrowKey c \<noteq> contribKey s c'" "contribKey s c' \<noteq> escrowKey c"
  by (simp_all add: escrowKey_def contribKey_def EscrowPrefix_def ContribPrefix_def)

lemma contribKey_inj:
  "length c = length c' \<Longrightarrow> contribKey s c = contribKey s' c' \<longleftrightarrow> s = s' \<and> ToLower c = ToLower c'"
  by (auto simp: contribKey_def append_eq_append_conv)


subsection \<open>Reading what was written\<close>

lemma EscrowOf_cong: "ToLower c' = ToLower c \<Longrightarrow> EscrowOf M st c' = EscrowOf M st c"
  by (simp add: EscrowOf_def escrowKey_def)

lemma ContributionOf_cong: "ToLower c' = ToLower c \<Longrightarrow> ContributionOf M st s c' = ContributionOf M st s c"
  by (simp add: ContributionOf_def contribKey_def)

lemma GetParams_setInt [simp]: "GetParams_sponsorpool (setInt M st k v) = GetParams_sponsorpool st"
  by (simp add: setInt_def GetParams_sponsorpool_def)

lemma sp_kv_SetParams [simp]: "sp_kv (SetParams_sponsorpool st p) = sp_kv st"
  by (simp add: SetParams_sponsorpool_def)

context int_codec
begin

lemma getInt_setInt: "0 \<le> v \<Longrightarrow> getInt M (setInt M st k v) k' = (if k' = k then v else getInt M st k')"
  by (simp add: getInt_def setInt_def)

lemma setInt_amounts:
  assumes "0 \<le> v"
  shows "EscrowOf M (setInt M st (escrowKey c) v) c' = (if ToLower c' = ToLower c then v else EscrowOf M st c')"
    "ContributionOf M (setInt M st (escrowKey c) v) s' c' = ContributionOf M st s' c'"
    "EscrowOf M (setInt M st (contribKey s c) v) c' = EscrowOf M st c'"
    "length c' = length c \<Longrightarrow> ContributionOf M (setInt M st (contribKey s c) v) s' c' =
      (if s' = s \<and> ToLower c' = ToLower c then v else ContributionOf M st s' c')"
  using assms by (simp_all add: EscrowOf_def ContributionOf_def getInt_setInt contribKey_inj)

text \<open>Each operation as its effect on every escrow and every contribution.\<close>

lemma DepositFrom_amounts:
  assumes run: "DepositFrom bk M poolModule payer s c a (b, st) = Inr (b', st')"
    and nonneg: "0 \<le> EscrowOf M st c" "0 \<le> ContributionOf M st s c"
  shows "0 < a" "SendCoinsFromAccountToModule bk b payer poolModule (NewCoins FeeDenom a) = Inr b'"
    "EscrowOf M st' c' = EscrowOf M st c' + (if ToLower c' = ToLower c then a else 0)"
    "length c' = length c \<Longrightarrow>
      ContributionOf M st' s' c' = ContributionOf M st s' c' + (if s' = s \<and> ToLower c' = ToLower c then a else 0)"
    "GetParams_sponsorpool st' = GetParams_sponsorpool st"
proof -
  let ?st1 = "setInt M st (escrowKey c) (EscrowOf M st c + a)"
  show a: "0 < a" and "SendCoinsFromAccountToModule bk b payer poolModule (NewCoins FeeDenom a) = Inr b'"
    using run by (auto simp: DepositFrom_def and_then_Inr Let_def split: if_splits)
  have st': "st' = setInt M ?st1 (contribKey s c) (ContributionOf M st s c + a)"
    using run a nonneg
    by (auto simp: DepositFrom_def and_then_Inr Let_def setInt_amounts)
  show "EscrowOf M st' c' = EscrowOf M st c' + (if ToLower c' = ToLower c then a else 0)"
    using nonneg a EscrowOf_cong [of c' c M st] ContributionOf_cong [of c' c M st s]
    by (auto simp: st' setInt_amounts)
  show "length c' = length c \<Longrightarrow>
      ContributionOf M st' s' c' = ContributionOf M st s' c' + (if s' = s \<and> ToLower c' = ToLower c then a else 0)"
    using nonneg a EscrowOf_cong [of c' c M st] ContributionOf_cong [of c' c M st s]
    by (auto simp: st' setInt_amounts)
  show "GetParams_sponsorpool st' = GetParams_sponsorpool st"
    by (simp add: st')
qed

lemma Withdraw_amounts:
  assumes run: "Withdraw bk M poolModule s c a (b, st) = Inr (b', st')"
  shows "0 < a" "a \<le> EscrowOf M st c" "a \<le> ContributionOf M st s c"
    "SendCoinsFromModuleToAccount bk b poolModule s (NewCoins FeeDenom a) = Inr b'"
    "EscrowOf M st' c' = EscrowOf M st c' - (if ToLower c' = ToLower c then a else 0)"
    "length c' = length c \<Longrightarrow>
      ContributionOf M st' s' c' = ContributionOf M st s' c' - (if s' = s \<and> ToLower c' = ToLower c then a else 0)"
    "GetParams_sponsorpool st' = GetParams_sponsorpool st"
proof -
  show a: "0 < a" "a \<le> EscrowOf M st c" "a \<le> ContributionOf M st s c"
    and "SendCoinsFromModuleToAccount bk b poolModule s (NewCoins FeeDenom a) = Inr b'"
    using run by (auto simp: Withdraw_def and_then_Inr Let_def split: if_splits)
  have st': "st' = setInt M (setInt M st (escrowKey c) (EscrowOf M st c - a))
      (contribKey s c) (ContributionOf M st s c - a)"
    using run a by (auto simp: Withdraw_def and_then_Inr Let_def)
  show "EscrowOf M st' c' = EscrowOf M st c' - (if ToLower c' = ToLower c then a else 0)"
    using a EscrowOf_cong [of c' c M st] ContributionOf_cong [of c' c M st s]
    by (auto simp: st' setInt_amounts)
  show "length c' = length c \<Longrightarrow>
      ContributionOf M st' s' c' = ContributionOf M st s' c' - (if s' = s \<and> ToLower c' = ToLower c then a else 0)"
    using a EscrowOf_cong [of c' c M st] ContributionOf_cong [of c' c M st s]
    by (auto simp: st' setInt_amounts)
  show "GetParams_sponsorpool st' = GetParams_sponsorpool st"
    by (simp add: st')
qed

lemma Reserve_amounts:
  assumes run: "Reserve M c a st = (True, st')"
  shows "0 < a" "a \<le> EscrowOf M st c"
    "EscrowOf M st' c' = EscrowOf M st c' - (if ToLower c' = ToLower c then a else 0)"
    "ContributionOf M st' s' c' = ContributionOf M st s' c'"
    "GetParams_sponsorpool st' = GetParams_sponsorpool st"
proof -
  show a: "0 < a" "a \<le> EscrowOf M st c"
    using run by (auto simp: Reserve_def Let_def split: if_splits)
  have st': "st' = setInt M st (escrowKey c) (EscrowOf M st c - a)"
    using run by (auto simp: Reserve_def Let_def split: if_splits)
  show "EscrowOf M st' c' = EscrowOf M st c' - (if ToLower c' = ToLower c then a else 0)"
    "ContributionOf M st' s' c' = ContributionOf M st s' c'"
    using a EscrowOf_cong [of c' c M st] ContributionOf_cong [of c' c M st s]
    by (auto simp: st' setInt_amounts)
  show "GetParams_sponsorpool st' = GetParams_sponsorpool st"
    by (simp add: st')
qed

end

lemma Deposit_eq: "Deposit bk M poolModule s c a = DepositFrom bk M poolModule s s c a"
  by (simp add: Deposit_def DepositFrom_def)

subsection \<open>The books balance\<close>

definition books_balance :: "sdk_math \<Rightarrow> sponsorpool_op list \<Rightarrow> sponsorpool_store \<Rightarrow> bool" where
  "books_balance M ops st =
    ((\<forall>c. EscrowOf M st c = deposited c ops - withdrawn c ops - reserved c ops \<and> 0 \<le> EscrowOf M st c) \<and>
     (\<forall>s c. length c = 42 \<longrightarrow>
       ContributionOf M st s c = deposited_by s c ops - withdrawn_by s c ops \<and> 0 \<le> ContributionOf M st s c))"

lemmas ledger_sums = deposited_def withdrawn_def reserved_def deposited_by_def withdrawn_by_def

lemma books_balance_snoc:
  assumes "books_balance M ops st"
    and "\<And>c. EscrowOf M st' c = EscrowOf M st c + deposited c [op] - withdrawn c [op] - reserved c [op]"
    and "\<And>c. 0 \<le> EscrowOf M st' c"
    and "\<And>s c. length c = 42 \<Longrightarrow>
      ContributionOf M st' s c = ContributionOf M st s c + deposited_by s c [op] - withdrawn_by s c [op]"
    and "\<And>s c. length c = 42 \<Longrightarrow> 0 \<le> ContributionOf M st' s c"
  shows "books_balance M (ops @ [op]) st'"
proof -
  have split: "deposited c (ops @ [op]) = deposited c ops + deposited c [op]"
    "withdrawn c (ops @ [op]) = withdrawn c ops + withdrawn c [op]"
    "reserved c (ops @ [op]) = reserved c ops + reserved c [op]"
    "deposited_by s c (ops @ [op]) = deposited_by s c ops + deposited_by s c [op]"
    "withdrawn_by s c (ops @ [op]) = withdrawn_by s c ops + withdrawn_by s c [op]" for s c
    by (simp_all add: ledger_sums)
  from assms(1) have "\<And>c. EscrowOf M st c = deposited c ops - withdrawn c ops - reserved c ops"
    "\<And>s c. length c = 42 \<Longrightarrow> ContributionOf M st s c = deposited_by s c ops - withdrawn_by s c ops"
    by (simp_all add: books_balance_def)
  with assms(2-5) show ?thesis unfolding books_balance_def split by simp
qed

lemma books_nonneg:
  "books_balance M ops st \<Longrightarrow> 0 \<le> EscrowOf M st c"
  "books_balance M ops st \<Longrightarrow> length c = 42 \<Longrightarrow> 0 \<le> ContributionOf M st s c"
  unfolding books_balance_def by blast+

lemma cong_le:
  "ToLower c' = ToLower c \<Longrightarrow> a \<le> EscrowOf M st c \<Longrightarrow> a \<le> EscrowOf M st c'"
  "ToLower c' = ToLower c \<Longrightarrow> a \<le> ContributionOf M st s c \<Longrightarrow> a \<le> ContributionOf M st s c'"
  using EscrowOf_cong [of c' c M st] ContributionOf_cong [of c' c M st s] by simp_all

context int_codec
begin

lemma books_balance_step:
  assumes ok: "books_balance M ops st" and hex: "names_hex op"
    and run: "sponsorpool_exec bk M poolModule op (b, st) = Inr (b', st')"
  shows "books_balance M (ops @ [op]) st'"
proof (cases op)
  case (DepositOp s c a)
  then have D: "DepositFrom bk M poolModule s s c a (b, st) = Inr (b', st')" and len: "length c = 42"
    using run hex by (simp_all add: sponsorpool_exec_def Deposit_eq names_hex_def)
  note D' = DepositFrom_amounts [OF D books_nonneg(1) [OF ok] books_nonneg(2) [OF ok len]]
  show ?thesis
    by (rule books_balance_snoc [OF ok])
      (use D'(1,3,4) books_nonneg [OF ok] len DepositOp in \<open>auto simp: ledger_sums\<close>)
next
  case (DepositFromOp p s c a)
  then have D: "DepositFrom bk M poolModule p s c a (b, st) = Inr (b', st')" and len: "length c = 42"
    using run hex by (simp_all add: sponsorpool_exec_def names_hex_def)
  note D' = DepositFrom_amounts [OF D books_nonneg(1) [OF ok] books_nonneg(2) [OF ok len]]
  show ?thesis
    by (rule books_balance_snoc [OF ok])
      (use D'(1,3,4) books_nonneg [OF ok] len DepositFromOp in \<open>auto simp: ledger_sums\<close>)
next
  case (WithdrawOp s c a)
  then have W: "Withdraw bk M poolModule s c a (b, st) = Inr (b', st')" and len: "length c = 42"
    using run hex by (simp_all add: sponsorpool_exec_def names_hex_def)
  show ?thesis
    by (rule books_balance_snoc [OF ok])
      (use Withdraw_amounts(1-3,5,6) [OF W] books_nonneg [OF ok] len WithdrawOp in
        \<open>auto simp: ledger_sums intro: cong_le\<close>)
next
  case (ReserveOp c a)
  then have R: "Reserve M c a st = (True, st')"
    using run by (auto simp: sponsorpool_exec_def split: prod.splits if_splits)
  show ?thesis
    by (rule books_balance_snoc [OF ok])
      (use Reserve_amounts [OF R] books_nonneg [OF ok] ReserveOp in \<open>auto simp: ledger_sums intro: cong_le\<close>)
next
  case (SetParamsOp p)
  then have "EscrowOf M st' c = EscrowOf M st c" "ContributionOf M st' s c = ContributionOf M st s c" for s c
    using run by (auto simp: sponsorpool_exec_def EscrowOf_def ContributionOf_def getInt_def)
  then show ?thesis
    using SetParamsOp books_nonneg [OF ok] by (intro books_balance_snoc [OF ok]) (auto simp: ledger_sums)
qed

lemma books_balance_run:
  "sponsorpool_run bk M poolModule st0 ops b st \<Longrightarrow> sp_kv st0 = (\<lambda>_. None) \<Longrightarrow> list_all names_hex ops \<Longrightarrow>
    books_balance M ops st"
proof (induction rule: sponsorpool_run.induct)
  case (start b)
  then show ?case
    by (simp add: books_balance_def EscrowOf_def ContributionOf_def getInt_def ledger_sums)
next
  case (op ops b st op b' st')
  then show ?case by (intro books_balance_step [OF op.IH]) auto
qed simp

end

subsection \<open>Properties\<close>

text \<open>
  (C5) Starting from no escrow, after any sequence of deposits, withdrawals, gas reservations and
  parameter changes the escrow of every contract is what was deposited for it minus what was
  withdrawn and reserved, the contribution of every sponsor is what that sponsor deposited minus
  what it withdrew, and neither is ever negative: nobody withdraws more than they put in, and a
  contract's withdrawals and gas never exceed its deposits.
\<close>

theorem sponsor_books_balance:
  assumes "int_codec M" and "sponsorpool_run bk M poolModule st0 ops b st"
    and "sp_kv st0 = (\<lambda>_. None)" and "list_all names_hex ops" and "length c = 42"
  shows "EscrowOf M st c = deposited c ops - withdrawn c ops - reserved c ops \<and>
    withdrawn c ops + reserved c ops \<le> deposited c ops \<and>
    ContributionOf M st s c = deposited_by s c ops - withdrawn_by s c ops \<and>
    withdrawn_by s c ops \<le> deposited_by s c ops"
proof -
  have "books_balance M ops st"
    by (rule int_codec.books_balance_run [OF assms(1-4)])
  with assms(5) show ?thesis unfolding books_balance_def by (smt (verit))
qed

definition sample_contract :: string where
  "sample_contract = ''0x'' @ replicate 40 CHR ''a''"

definition sample_ledger :: ledger where
  "sample_ledger = \<lparr>l_balance = (\<lambda>a d. if a = ''dev'' then 100 else 0), l_supply = (\<lambda>_. 100)\<rparr>"

theorem sponsor_books_balance_witness:
  "\<exists>b st. sponsorpool_run ledger_bank decimal GasPoolName \<lparr>sp_ParamsKey = None, sp_kv = (\<lambda>_. None)\<rparr>
      [DepositOp ''dev'' sample_contract 40, ReserveOp sample_contract 15] b st \<and>
    EscrowOf decimal st sample_contract = 25"
proof -
  let ?st0 = "\<lparr>sp_ParamsKey = None, sp_kv = (\<lambda>_. None)\<rparr>" and ?c = sample_contract
  let ?d = "DepositOp ''dev'' ?c 40"
  obtain b1 st1 where s1: "sponsorpool_exec ledger_bank decimal GasPoolName ?d (sample_ledger, ?st0) = Inr (b1, st1)"
    by (simp add: sponsorpool_exec_def Deposit_def ledger_bank_def ledger_move_def sample_ledger_def NewCoins_def Let_def)
  have D: "DepositFrom ledger_bank decimal GasPoolName ''dev'' ''dev'' ?c 40 (sample_ledger, ?st0) = Inr (b1, st1)"
    using s1 by (simp add: sponsorpool_exec_def Deposit_eq)
  have "EscrowOf decimal st1 ?c = 40" "GetParams_sponsorpool st1 = DefaultParams_sponsorpool"
    using decimal.DepositFrom_amounts(3,5) [OF D]
    by (simp_all add: EscrowOf_def ContributionOf_def getInt_def GetParams_sponsorpool_def)
  moreover have "NewIntFromString decimal ''1000000000000000000000'' = Some 1000000000000000000000"
    by (simp add: decimal_def parse_int_def parse_nat_def parse_digit_def char_digit_def)
  ultimately obtain st2 where s2: "sponsorpool_exec ledger_bank decimal GasPoolName (ReserveOp ?c 15) (b1, st1) = Inr (b1, st2)"
    by (simp add: sponsorpool_exec_def Reserve_def Let_def DefaultParams_sponsorpool_def)
  have run: "sponsorpool_run ledger_bank decimal GasPoolName ?st0 [?d, ReserveOp ?c 15] b1 st2"
    using sponsorpool_run.op [OF sponsorpool_run.op [OF sponsorpool_run.start s1] s2] by simp
  have "EscrowOf decimal st2 ?c = 25"
    using sponsor_books_balance [OF decimal.int_codec_axioms run, of ?c]
    by (simp add: names_hex_def sample_contract_def ledger_sums)
  with run show ?thesis by blast
qed

text \<open>
  (C29) A reservation is granted exactly when the pool is enabled, the fee is positive and within
  the cap per transaction, and the escrow covers it. A granted one debits that contract's escrow
  by the fee and changes nothing else; a declined one changes nothing.
\<close>

theorem reserve_exact:
  assumes "int_codec M"
  shows "(fst (Reserve M c fee st) \<longleftrightarrow>
      sp_Enabled (GetParams_sponsorpool st) \<and> 0 < fee \<and> fee \<le> EscrowOf M st c \<and>
      (\<forall>limit. NewIntFromString M (PerTxCap (GetParams_sponsorpool st)) = Some limit \<longrightarrow> limit \<le> 0 \<or> fee \<le> limit)) \<and>
    (\<not> fst (Reserve M c fee st) \<longrightarrow> snd (Reserve M c fee st) = st) \<and>
    (fst (Reserve M c fee st) \<longrightarrow>
      EscrowOf M (snd (Reserve M c fee st)) c' = EscrowOf M st c' - (if ToLower c' = ToLower c then fee else 0) \<and>
      ContributionOf M (snd (Reserve M c fee st)) s c' = ContributionOf M st s c')"
proof -
  have "fst (Reserve M c fee st) \<Longrightarrow> Reserve M c fee st = (True, snd (Reserve M c fee st))"
    by (simp add: prod_eq_iff)
  from int_codec.Reserve_amounts(3,4) [OF assms this] show ?thesis
    by (auto simp: Reserve_def Let_def not_less split: option.splits)
qed

theorem reserve_exact_witness:
  "\<not> fst (Reserve decimal sample_contract 5 \<lparr>sp_ParamsKey = None, sp_kv = (\<lambda>_. None)\<rparr>)"
  using reserve_exact [OF decimal.int_codec_axioms, of sample_contract 5 "\<lparr>sp_ParamsKey = None, sp_kv = (\<lambda>_. None)\<rparr>"]
  by (simp add: EscrowOf_def getInt_def)

end
