(* ===== verification/Contest.thy ===== *)
theory Contest
  imports KVStore Sdk
begin

text \<open>
  \<open>x/contest\<close>: the on-chain contest. Successful transactions to approved showcase contracts
  credit the contract's developer and mark their sender active for the day; at the end of a
  block the markers of earlier days become points, and once the snapshot time is reached the
  leaderboard is frozen. From the frozen leaderboard two budgets are split in proportion to
  points. Each kind of record is its own ordered store; a marker's key is its day and tester.
\<close>

subsection \<open>Data\<close>

record showcase_app =
  sc_Address :: string
  Dev :: string
  VM :: string
  Approved :: bool

record dev_stats =
  TxVolume :: nat
  GasSponsored :: string

record contest_params =
  SnapshotUnix :: int
  DevTrackBudget :: string
  TesterTrackBudget :: string
  WeightTxVolume :: nat
  WeightGasSponsoredPer :: nat
  GasSponsoredDivisor :: string
  WeightUAW :: nat
  Admin :: string
  PasskeyEnabled :: bool

record contest_genesis =
  ct_Params :: contest_params
  ct_Showcase :: "showcase_app list"

record contest_store =
  ct_ParamsKey :: "contest_params blob option"
  ShowcasePrefix :: "(string, showcase_app blob) kv"
  DevStatsPrefix :: "(string, dev_stats blob) kv"
  TesterPointsPrefix :: "(string, nat) kv"
  DailyUAWPrefix :: "(nat \<times> string, unit) kv"
  SnapshotDoneKey :: bool

definition DefaultParams_contest :: contest_params where
  "DefaultParams_contest = \<lparr>SnapshotUnix = 0, DevTrackBudget = ''0'', TesterTrackBudget = ''0'',
     WeightTxVolume = 1, WeightGasSponsoredPer = 1, GasSponsoredDivisor = ''1000000000000000000'',
     WeightUAW = 10, Admin = [], PasskeyEnabled = False\<rparr>"

text \<open>\<open>common.IsHexAddress\<close> is a parameter.\<close>

definition Validate_contest :: "sdk_math \<Rightarrow> (string \<Rightarrow> bool) \<Rightarrow> contest_genesis \<Rightarrow> unit result" where
  "Validate_contest M IsHexAddress gs =
    (let p = ct_Params gs in
     if NewIntFromString M (DevTrackBudget p) = None then Inl (Error ''invalid dev_track_budget'')
     else if NewIntFromString M (TesterTrackBudget p) = None then Inl (Error ''invalid tester_track_budget'')
     else if NewIntFromString M (GasSponsoredDivisor p) = None then Inl (Error ''invalid gas_sponsored_divisor'')
     else if list_ex (\<lambda>a. VM a = ''evm'' \<and> \<not> IsHexAddress (sc_Address a)) (ct_Showcase gs)
     then Inl (Error ''invalid EVM address'')
     else Inr ())"

definition SetParams_contest :: "contest_store \<Rightarrow> contest_params \<Rightarrow> contest_store" where
  "SetParams_contest st p = st\<lparr>ct_ParamsKey := Some (Json p)\<rparr>"

definition GetParams_contest :: "contest_store \<Rightarrow> contest_params" where
  "GetParams_contest st = read_or DefaultParams_contest (ct_ParamsKey st)"

interpretation contest: params_store SetParams_contest GetParams_contest
  by unfold_locales (simp_all add: SetParams_contest_def GetParams_contest_def)

subsection \<open>The showcase registry\<close>

definition SetShowcase :: "contest_store \<Rightarrow> showcase_app \<Rightarrow> contest_store" where
  "SetShowcase st a = st\<lparr>ShowcasePrefix := kv_set (sc_Address a) (Json a) (ShowcasePrefix st)\<rparr>"

definition DeleteShowcase :: "contest_store \<Rightarrow> string \<Rightarrow> contest_store" where
  "DeleteShowcase st address = st\<lparr>ShowcasePrefix := kv_del address (ShowcasePrefix st)\<rparr>"

definition GetShowcase :: "contest_store \<Rightarrow> string \<Rightarrow> showcase_app option" where
  "GetShowcase st address = read_opt (kv_get (ShowcasePrefix st) address)"

text \<open>The values the iterator hands to its callback, in key order.\<close>

definition IterateShowcase :: "contest_store \<Rightarrow> showcase_app list" where
  "IterateShowcase st = List.map_filter (\<lambda>(_, v). read_opt (Some v)) (ShowcasePrefix st)"

subsection \<open>Developer statistics and tester points\<close>

definition getDev :: "contest_store \<Rightarrow> string \<Rightarrow> dev_stats" where
  "getDev st dev =
    (let s = read_or \<lparr>TxVolume = 0, GasSponsored = ''0''\<rparr> (kv_get (DevStatsPrefix st) dev)
     in if GasSponsored s = [] then s\<lparr>GasSponsored := ''0''\<rparr> else s)"

definition setDev :: "contest_store \<Rightarrow> string \<Rightarrow> dev_stats \<Rightarrow> contest_store" where
  "setDev st dev s = st\<lparr>DevStatsPrefix := kv_set dev (Json s) (DevStatsPrefix st)\<rparr>"

definition AddDevTxVolume :: "contest_store \<Rightarrow> string \<Rightarrow> nat \<Rightarrow> contest_store" where
  "AddDevTxVolume st dev n =
    (let s = getDev st dev in setDev st dev (s\<lparr>TxVolume := u64 (TxVolume s + n)\<rparr>))"

definition AddGasSponsored :: "sdk_math \<Rightarrow> contest_store \<Rightarrow> string \<Rightarrow> int \<Rightarrow> contest_store" where
  "AddGasSponsored M st dev amt =
    (let s = getDev st dev;
         cur = (case NewIntFromString M (GasSponsored s) of None \<Rightarrow> 0 | Some v \<Rightarrow> v)
     in setDev st dev (s\<lparr>GasSponsored := IntString M (cur + amt)\<rparr>))"

definition IterateDev :: "contest_store \<Rightarrow> (string \<times> dev_stats) list" where
  "IterateDev st = List.map_filter (\<lambda>(dev, v). map_option (Pair dev) (read_opt (Some v))) (DevStatsPrefix st)"

definition tester_points :: "contest_store \<Rightarrow> string \<Rightarrow> nat" where
  "tester_points st tester = (case kv_get (TesterPointsPrefix st) tester of None \<Rightarrow> 0 | Some n \<Rightarrow> n)"

definition AddTesterPoints :: "contest_store \<Rightarrow> string \<Rightarrow> nat \<Rightarrow> contest_store" where
  "AddTesterPoints st tester pts =
    (let cur = tester_points st tester
     in st\<lparr>TesterPointsPrefix := kv_set tester (u64 (cur + pts)) (TesterPointsPrefix st)\<rparr>)"

definition IterateTester :: "contest_store \<Rightarrow> (string \<times> nat) list" where
  "IterateTester st = TesterPointsPrefix st"

definition MarkActiveToday :: "contest_store \<Rightarrow> nat \<Rightarrow> string \<Rightarrow> contest_store" where
  "MarkActiveToday st day tester =
    (if kv_get (DailyUAWPrefix st) (day, tester) \<noteq> None then st
     else st\<lparr>DailyUAWPrefix := kv_set (day, tester) () (DailyUAWPrefix st)\<rparr>)"

definition SnapshotDone :: "contest_store \<Rightarrow> bool" where
  "SnapshotDone st = SnapshotDoneKey st"

definition setSnapshotDone :: "contest_store \<Rightarrow> contest_store" where
  "setSnapshotDone st = st\<lparr>SnapshotDoneKey := True\<rparr>"

subsection \<open>Genesis\<close>

definition InitGenesis_contest :: "contest_store \<Rightarrow> contest_genesis \<Rightarrow> contest_store" where
  "InitGenesis_contest st gs = foldl SetShowcase (SetParams_contest st (ct_Params gs)) (ct_Showcase gs)"

definition ExportGenesis_contest :: "contest_store \<Rightarrow> contest_genesis" where
  "ExportGenesis_contest st = \<lparr>ct_Params = GetParams_contest st, ct_Showcase = IterateShowcase st\<rparr>"

subsection \<open>The end of a block\<close>

text \<open>The keys of the days before \<open>today\<close> are collected first, then credited and deleted one by one.\<close>

definition rollup_one :: "nat \<Rightarrow> contest_store \<Rightarrow> nat \<times> string \<Rightarrow> contest_store" where
  "rollup_one weight st key =
    (let st1 = AddTesterPoints st (snd key) weight
     in st1\<lparr>DailyUAWPrefix := kv_del key (DailyUAWPrefix st1)\<rparr>)"

definition rollupUAW :: "contest_store \<Rightarrow> nat \<Rightarrow> nat \<Rightarrow> contest_store" where
  "rollupUAW st today weight =
    (let keys = filter (\<lambda>(day, _). day < today) (map fst (DailyUAWPrefix st))
     in foldl (rollup_one weight) st keys)"

definition EndBlock_contest :: "int \<Rightarrow> contest_store \<Rightarrow> contest_store" where
  "EndBlock_contest blockTime st =
    (if SnapshotDone st then st
     else
       let p = GetParams_contest st;
           today = utc_day blockTime;
           st1 = rollupUAW st today (WeightUAW p)
       in if 0 < SnapshotUnix p \<and> blockTime \<ge> SnapshotUnix p then setSnapshotDone st1 else st1)"

subsection \<open>Recording a transaction\<close>

text \<open>
  The messages of a transaction: an Ethereum transaction with its target and sender as hex
  strings, \<open>None\<close> for a contract creation, or any other message.
\<close>

datatype tx_msg = EthereumTx "string option" string | OtherMsg

definition record_msg :: "nat \<Rightarrow> contest_store \<Rightarrow> tx_msg \<Rightarrow> contest_store" where
  "record_msg day st msg = (case msg of
      OtherMsg \<Rightarrow> st
    | EthereumTx None _ \<Rightarrow> st
    | EthereumTx (Some to) sender \<Rightarrow>
        (case GetShowcase st (ToLower to) of
           None \<Rightarrow> st
         | Some app \<Rightarrow>
             if \<not> Approved app then st
             else MarkActiveToday (AddDevTxVolume st (Dev app) 1) day (ToLower sender)))"

definition PostHandle :: "int \<Rightarrow> bool \<Rightarrow> bool \<Rightarrow> bool \<Rightarrow> tx_msg list \<Rightarrow> contest_store \<Rightarrow> contest_store" where
  "PostHandle blockTime checkTx simulate success msgs st =
    (if simulate \<or> \<not> success \<or> checkTx then st
     else if SnapshotDone st then st
     else foldl (record_msg (utc_day blockTime)) st msgs)"

subsection \<open>Messages\<close>

definition requireAdmin_contest :: "contest_store \<Rightarrow> string \<Rightarrow> unit result" where
  "requireAdmin_contest st signer =
    (let admin = Admin (GetParams_contest st) in
     if admin = [] then Inl (Error ''contest admin is not configured'')
     else if signer \<noteq> admin then Inl (Error ''signer is not the contest admin'')
     else Inr ())"

definition normalizeAddr :: "string \<Rightarrow> string \<Rightarrow> string" where
  "normalizeAddr address vm = (if vm = ''evm'' then ToLower address else address)"

definition RegisterShowcase ::
    "(string \<Rightarrow> bool) \<Rightarrow> string \<Rightarrow> string \<Rightarrow> string \<Rightarrow> string \<Rightarrow> contest_store \<Rightarrow> contest_store result" where
  "RegisterShowcase IsHexAddress signer address dev msgVm st =
    and_then (requireAdmin_contest st signer) (\<lambda>_.
      let vm = (if msgVm = [] then ''evm'' else msgVm) in
      if vm = ''evm'' \<and> \<not> IsHexAddress address then Inl (Error ''invalid EVM contract address'')
      else Inr (SetShowcase st \<lparr>sc_Address = normalizeAddr address vm, Dev = dev, VM = vm, Approved = True\<rparr>))"

definition RemoveShowcase :: "string \<Rightarrow> string \<Rightarrow> contest_store \<Rightarrow> contest_store result" where
  "RemoveShowcase signer address st =
    and_then (requireAdmin_contest st signer) (\<lambda>_. Inr (DeleteShowcase st (normalizeAddr address ''evm'')))"

definition SetPasskeyEnabled :: "string \<Rightarrow> bool \<Rightarrow> contest_store \<Rightarrow> contest_store result" where
  "SetPasskeyEnabled signer enabled st =
    and_then (requireAdmin_contest st signer) (\<lambda>_.
      Inr (SetParams_contest st ((GetParams_contest st)\<lparr>PasskeyEnabled := enabled\<rparr>)))"

definition SetAdmin_contest :: "string \<Rightarrow> string \<Rightarrow> string \<Rightarrow> contest_store \<Rightarrow> contest_store result" where
  "SetAdmin_contest govAddr authority admin st =
    (if authority \<noteq> govAddr then Inl (Error ''expected gov authority'')
     else Inr (SetParams_contest st ((GetParams_contest st)\<lparr>Admin := admin\<rparr>)))"

subsection \<open>The allocation\<close>

record alloc =
  al_Address :: string
  Amount :: int
  Points :: nat
  Track :: string

text \<open>
  \<open>points\<close> is a Go map, given as its entries in any order. \<open>best_index\<close> is the first position
  of the sorted addresses with the most points.
\<close>

definition best_index :: "nat list \<Rightarrow> int" where
  "best_index ps = fst (foldl (\<lambda>(bestIdx, bestPts) i.
      if ps ! i > bestPts then (int i, ps ! i) else (bestIdx, bestPts)) (-1, 0) [0..<length ps])"

definition distribute :: "(string \<times> nat) list \<Rightarrow> int \<Rightarrow> string \<Rightarrow> alloc list" where
  "distribute points budget track =
    (let live = filter (\<lambda>(_, p). p > 0) points;
         totalP = u64 (sum_list (map snd live));
         addrs = sort (map fst live) in
     if totalP = 0 \<or> \<not> 0 < budget then []
     else
       let pts = (\<lambda>a. (case map_of points a of None \<Rightarrow> 0 | Some p \<Rightarrow> p));
           out = map (\<lambda>a. \<lparr>al_Address = a, Amount = quo (budget * int (pts a)) (int totalP), Points = pts a, Track = track\<rparr>) addrs;
           running = sum_list (map Amount out);
           bestIdx = best_index (map pts addrs);
           rem = budget - running
       in if 0 < rem \<and> bestIdx \<ge> 0
          then out[nat bestIdx := (out ! nat bestIdx)\<lparr>Amount := Amount (out ! nat bestIdx) + rem\<rparr>]
          else out)"

text \<open>\<open>Uint64\<close> of a quotient that does not fit panics.\<close>

definition dev_points :: "sdk_math \<Rightarrow> contest_params \<Rightarrow> int \<Rightarrow> dev_stats \<Rightarrow> nat result" where
  "dev_points M p divisor s =
    (let pts = u64 (TxVolume s * WeightTxVolume p) in
     case NewIntFromString M (GasSponsored s) of
       None \<Rightarrow> Inr pts
     | Some gas \<Rightarrow>
         if \<not> 0 < gas then Inr pts
         else if quo gas divisor \<ge> 2 ^ 64 then Inl (Error ''Uint64() out of bounds'')
         else Inr (u64 (pts + u64 (nat (quo gas divisor) * WeightGasSponsoredPer p))))"

fun all_dev_points :: "sdk_math \<Rightarrow> contest_params \<Rightarrow> int \<Rightarrow> (string \<times> dev_stats) list \<Rightarrow> (string \<times> nat) list result" where
  "all_dev_points M p divisor [] = Inr []"
| "all_dev_points M p divisor ((dev, s) # rest) =
     and_then (dev_points M p divisor s) (\<lambda>pts.
       and_then (all_dev_points M p divisor rest) (\<lambda>out. Inr ((dev, pts) # out)))"

definition ExportAllocation :: "sdk_math \<Rightarrow> contest_store \<Rightarrow> alloc list result" where
  "ExportAllocation M st =
    (let p = GetParams_contest st;
         devBudget = (case NewIntFromString M (DevTrackBudget p) of None \<Rightarrow> 0 | Some v \<Rightarrow> v);
         testBudget = (case NewIntFromString M (TesterTrackBudget p) of None \<Rightarrow> 0 | Some v \<Rightarrow> v);
         divisor = (case NewIntFromString M (GasSponsoredDivisor p) of None \<Rightarrow> 1 | Some v \<Rightarrow> if 0 < v then v else 1)
     in and_then (all_dev_points M p divisor (IterateDev st)) (\<lambda>devPts.
       Inr (distribute devPts devBudget ''developer'' @ distribute (IterateTester st) testBudget ''tester'')))"

subsection \<open>The split adds up\<close>


text \<open>The points of an address, and the entries that count.\<close>

definition points_of :: "(string \<times> nat) list \<Rightarrow> string \<Rightarrow> nat" where
  "points_of points a = (case map_of points a of None \<Rightarrow> 0 | Some p \<Rightarrow> p)"

definition scored :: "(string \<times> nat) list \<Rightarrow> string list" where
  "scored points = sort (map fst (filter (\<lambda>(_, p). p > 0) points))"

definition total_points :: "(string \<times> nat) list \<Rightarrow> nat" where
  "total_points points = sum_list (map snd points)"





text \<open>Each address with its share rounded down, before the remainder is given out.\<close>

definition floors :: "(string \<times> nat) list \<Rightarrow> int \<Rightarrow> string \<Rightarrow> alloc list" where
  "floors points budget track = map (\<lambda>a. \<lparr>al_Address = a,
     Amount = budget * int (points_of points a) div int (total_points points),
     Points = points_of points a, Track = track\<rparr>) (scored points)"



lemma length_floors [simp]: "length (floors points budget track) = length (scored points)"
  by (simp add: floors_def)



subsection \<open>Markers become points once\<close>

lemma rollup_one_effect:
  "tester_points (rollup_one w st k) x = (if x = snd k then u64 (tester_points st x + w) else tester_points st x)"
  "DailyUAWPrefix (rollup_one w st k) = kv_del k (DailyUAWPrefix st)"
  "GetParams_contest (rollup_one w st k) = GetParams_contest st"
  "SnapshotDoneKey (rollup_one w st k) = SnapshotDoneKey st"
  "ShowcasePrefix (rollup_one w st k) = ShowcasePrefix st"
  by (simp_all add: rollup_one_def Let_def tester_points_def AddTesterPoints_def GetParams_contest_def)

lemma rollup_fold:
  assumes "tester_points st x < 2 ^ 64"
  shows "tester_points (foldl (rollup_one w) st keys) x =
      u64 (tester_points st x + w * length (filter (\<lambda>k. snd k = x) keys)) \<and>
    (\<forall>k. kv_get (DailyUAWPrefix (foldl (rollup_one w) st keys)) k =
      (if k \<in> set keys then None else kv_get (DailyUAWPrefix st) k)) \<and>
    GetParams_contest (foldl (rollup_one w) st keys) = GetParams_contest st \<and>
    ShowcasePrefix (foldl (rollup_one w) st keys) = ShowcasePrefix st \<and>
    SnapshotDoneKey (foldl (rollup_one w) st keys) = SnapshotDoneKey st \<and>
    (kv_ok (DailyUAWPrefix st) \<longrightarrow> kv_ok (DailyUAWPrefix (foldl (rollup_one w) st keys)))"
  using assms
proof (induction keys arbitrary: st)
  case Nil
  then show ?case by (simp add: u64_id)
next
  case (Cons k keys)
  have "tester_points (rollup_one w st k) x < 2 ^ 64"
    using Cons.prems u64_less [of "tester_points st x + w"] by (auto simp: rollup_one_effect)
  moreover have "u64 (u64 (a + b) + c) = u64 (a + (b + c))" for a b c
    by (simp add: u64_def mod_add_left_eq add.assoc)
  ultimately show ?case
    using Cons.IH [of "rollup_one w st k"] by (auto simp: rollup_one_effect)
qed

lemma filter_day: "filter (\<lambda>(day, _). day < today) ks = filter (\<lambda>k. fst k < today) ks"
  by (simp add: case_prod_beta')

lemma rollupUAW_effect:
  assumes "kv_ok (DailyUAWPrefix st)" "tester_points st x < 2 ^ 64"
  shows "tester_points (rollupUAW st today w) x =
      u64 (tester_points st x + w * card {d. d < today \<and> kv_get (DailyUAWPrefix st) (d, x) \<noteq> None})"
    and "kv_get (DailyUAWPrefix (rollupUAW st today w)) k = (if fst k < today then None else kv_get (DailyUAWPrefix st) k)"
    and "GetParams_contest (rollupUAW st today w) = GetParams_contest st"
    and "ShowcasePrefix (rollupUAW st today w) = ShowcasePrefix st"
    and "SnapshotDoneKey (rollupUAW st today w) = SnapshotDoneKey st"
    and "kv_ok (DailyUAWPrefix (rollupUAW st today w))"
proof -
  let ?D = "DailyUAWPrefix st"
  let ?keys = "filter (\<lambda>k. fst k < today) (map fst ?D)"
  have roll: "rollupUAW st today w = foldl (rollup_one w) st ?keys"
    by (simp add: rollupUAW_def Let_def filter_day)
  have mem: "k \<in> set (map fst ?D) \<longleftrightarrow> kv_get ?D k \<noteq> None" for k
    by (simp add: kv_get_None_iff)
  have "distinct (map fst ?D)" by (rule kv_ok_distinct [OF assms(1)])
  then have "length (filter (\<lambda>k. snd k = x) ?keys) = card (set (filter (\<lambda>k. snd k = x) ?keys))"
    by (intro distinct_card [symmetric] distinct_filter)
  also have "set (filter (\<lambda>k. snd k = x) ?keys) = {k \<in> set (map fst ?D). fst k < today \<and> snd k = x}"
    by auto
  also have "{k \<in> set (map fst ?D). fst k < today \<and> snd k = x} = (\<lambda>d. (d, x)) ` {d. d < today \<and> kv_get ?D (d, x) \<noteq> None}"
    using mem by (auto simp: image_iff)
  also have "card \<dots> = card {d. d < today \<and> kv_get ?D (d, x) \<noteq> None}"
    by (rule card_image) (simp add: inj_on_def)
  finally have len: "length (filter (\<lambda>k. snd k = x) ?keys) = card {d. d < today \<and> kv_get ?D (d, x) \<noteq> None}" .
  note fold = rollup_fold [OF assms(2), of w ?keys]
  show "tester_points (rollupUAW st today w) x =
      u64 (tester_points st x + w * card {d. d < today \<and> kv_get (DailyUAWPrefix st) (d, x) \<noteq> None})"
    using fold by (simp only: roll len)
  show "kv_get (DailyUAWPrefix (rollupUAW st today w)) k = (if fst k < today then None else kv_get (DailyUAWPrefix st) k)"
  proof -
    have "k \<in> set ?keys \<longleftrightarrow> fst k < today \<and> kv_get ?D k \<noteq> None" using mem [of k] by auto
    then show ?thesis using fold unfolding roll by (metis (no_types, lifting))
  qed
  show "GetParams_contest (rollupUAW st today w) = GetParams_contest st"
    "ShowcasePrefix (rollupUAW st today w) = ShowcasePrefix st"
    "SnapshotDoneKey (rollupUAW st today w) = SnapshotDoneKey st"
    "kv_ok (DailyUAWPrefix (rollupUAW st today w))"
    using fold assms(1) by (simp_all only: roll)
qed

subsection \<open>Recording\<close>

lemma record_msg_frame [simp]:
  "GetShowcase (record_msg day st msg) a = GetShowcase st a"
  "GetParams_contest (record_msg day st msg) = GetParams_contest st"
  "tester_points (record_msg day st msg) x = tester_points st x"
  "SnapshotDoneKey (record_msg day st msg) = SnapshotDoneKey st"
  by (auto simp: record_msg_def MarkActiveToday_def AddDevTxVolume_def setDev_def Let_def GetShowcase_def
      GetParams_contest_def tester_points_def split: tx_msg.splits option.splits)

text \<open>The senders, lower-cased, of the messages that call an approved contract.\<close>

definition active_senders :: "contest_store \<Rightarrow> tx_msg list \<Rightarrow> string set" where
  "active_senders st msgs = {ToLower sender | to sender app. EthereumTx (Some to) sender \<in> set msgs \<and>
     GetShowcase st (ToLower to) = Some app \<and> Approved app}"

lemma record_msg_marks:
  assumes "kv_ok (DailyUAWPrefix st)"
  shows "kv_ok (DailyUAWPrefix (record_msg day st msg))"
    "kv_get (DailyUAWPrefix (record_msg day st msg)) k \<noteq> None \<longleftrightarrow>
      kv_get (DailyUAWPrefix st) k \<noteq> None \<or> fst k = day \<and> snd k \<in> active_senders st [msg]"
  using assms
  by (cases k; auto simp: record_msg_def MarkActiveToday_def AddDevTxVolume_def setDev_def Let_def active_senders_def
      split: tx_msg.splits option.splits)+

lemma record_fold:
  assumes "kv_ok (DailyUAWPrefix st)"
  shows "kv_ok (DailyUAWPrefix (foldl (record_msg day) st msgs)) \<and>
    (\<forall>k. kv_get (DailyUAWPrefix (foldl (record_msg day) st msgs)) k \<noteq> None \<longleftrightarrow>
      kv_get (DailyUAWPrefix st) k \<noteq> None \<or> fst k = day \<and> snd k \<in> active_senders st msgs) \<and>
    GetParams_contest (foldl (record_msg day) st msgs) = GetParams_contest st \<and>
    (\<forall>x. tester_points (foldl (record_msg day) st msgs) x = tester_points st x)"
  using assms
proof (induction msgs arbitrary: st)
  case Nil
  then show ?case by (simp add: active_senders_def)
next
  case (Cons m msgs)
  have "active_senders (record_msg day st m) msgs = active_senders st msgs"
    by (simp add: active_senders_def)
  moreover have "active_senders st (m # msgs) = active_senders st [m] \<union> active_senders st msgs"
    by (auto simp: active_senders_def)
  ultimately show ?case
    using Cons.IH [OF record_msg_marks(1) [OF Cons.prems, of day m]] record_msg_marks(2) [OF Cons.prems, of day m]
    by auto
qed

subsection \<open>Runs of the contest\<close>

datatype contest_op =
    RecordTx int bool bool bool "tx_msg list"
  | EndOfBlock int
  | Register string string string string
  | Remove string string
  | Passkey string bool
  | Rotate string string

text \<open>One operation; a message that is refused changes nothing.\<close>

definition contest_exec :: "(string \<Rightarrow> bool) \<Rightarrow> string \<Rightarrow> contest_store \<Rightarrow> contest_op \<Rightarrow> contest_store" where
  "contest_exec IsHexAddress govAddr st op =
    (let keep = (\<lambda>r. case r of Inl _ \<Rightarrow> st | Inr st' \<Rightarrow> st') in
     case op of
       RecordTx t checkTx simulate success msgs \<Rightarrow> PostHandle t checkTx simulate success msgs st
     | EndOfBlock t \<Rightarrow> EndBlock_contest t st
     | Register signer address dev vm \<Rightarrow> keep (RegisterShowcase IsHexAddress signer address dev vm st)
     | Remove signer address \<Rightarrow> keep (RemoveShowcase signer address st)
     | Passkey signer enabled \<Rightarrow> keep (SetPasskeyEnabled signer enabled st)
     | Rotate authority admin \<Rightarrow> keep (SetAdmin_contest govAddr authority admin st))"

definition op_time :: "contest_op \<Rightarrow> int option" where
  "op_time op = (case op of RecordTx t _ _ _ _ \<Rightarrow> Some t | EndOfBlock t \<Rightarrow> Some t | _ \<Rightarrow> None)"

text \<open>The activity an operation adds: the day with each sender of a recorded call.\<close>

definition op_activity :: "contest_store \<Rightarrow> contest_op \<Rightarrow> (nat \<times> string) set" where
  "op_activity st op = (case op of
      RecordTx t checkTx simulate success msgs \<Rightarrow>
        (if simulate \<or> \<not> success \<or> checkTx \<or> SnapshotDone st then {} else {utc_day t} \<times> active_senders st msgs)
    | _ \<Rightarrow> {})"

text \<open>
  A run with its clock and the activity so far: the clock does not go back, and block times are
  in the range of \<open>int64\<close>.
\<close>

inductive contest_run ::
    "(string \<Rightarrow> bool) \<Rightarrow> string \<Rightarrow> contest_store \<Rightarrow> int \<Rightarrow> (nat \<times> string) set \<Rightarrow> contest_store \<Rightarrow> bool"
  for IsHexAddress govAddr st0 where
  start: "0 \<le> t \<Longrightarrow> t < 2 ^ 63 \<Longrightarrow> contest_run IsHexAddress govAddr st0 t {} st0"
| timed: "contest_run IsHexAddress govAddr st0 t A st \<Longrightarrow> op_time op = Some t' \<Longrightarrow> t \<le> t' \<Longrightarrow> t' < 2 ^ 63 \<Longrightarrow>
    contest_run IsHexAddress govAddr st0 t' (A \<union> op_activity st op) (contest_exec IsHexAddress govAddr st op)"
| message: "contest_run IsHexAddress govAddr st0 t A st \<Longrightarrow> op_time op = None \<Longrightarrow>
    contest_run IsHexAddress govAddr st0 t A (contest_exec IsHexAddress govAddr st op)"

text \<open>What the store knows of the activity: days that became points, and days still marked.\<close>

definition credited :: "contest_store \<Rightarrow> (nat \<times> string) set \<Rightarrow> string \<Rightarrow> nat set" where
  "credited st A x = {d. (d, x) \<in> A \<and> kv_get (DailyUAWPrefix st) (d, x) = None}"

definition contest_inv :: "nat \<Rightarrow> int \<Rightarrow> (nat \<times> string) set \<Rightarrow> contest_store \<Rightarrow> bool" where
  "contest_inv w t A st \<longleftrightarrow>
    0 \<le> t \<and> t < 2 ^ 63 \<and> kv_ok (DailyUAWPrefix st) \<and> WeightUAW (GetParams_contest st) = w \<and>
    (\<forall>k. kv_get (DailyUAWPrefix st) k \<noteq> None \<longrightarrow> k \<in> A) \<and>
    (\<forall>d x. (d, x) \<in> A \<longrightarrow> d \<le> utc_day t) \<and>
    (\<forall>d x. (d, x) \<in> A \<and> kv_get (DailyUAWPrefix st) (d, x) = None \<longrightarrow> d < utc_day t) \<and>
    (\<forall>x. tester_points st x = u64 (w * card (credited st A x)))"

lemma not_Some_unit: "v \<noteq> Some () \<longleftrightarrow> v = None"
  by (cases v) auto

lemma contest_inv_message:
  assumes "contest_inv w t A st" "op_time op = None"
  shows "contest_inv w t A (contest_exec IsHexAddress govAddr st op)"
  using assms
  by (auto simp: contest_inv_def contest_exec_def op_time_def RegisterShowcase_def RemoveShowcase_def
      SetPasskeyEnabled_def SetAdmin_contest_def and_then_def Let_def SetShowcase_def DeleteShowcase_def
      SetParams_contest_def GetParams_contest_def credited_def tester_points_def
      split: contest_op.splits sum.splits if_splits)

lemma contest_inv_later:
  assumes "contest_inv w t A st" "t \<le> t'" "t' < 2 ^ 63"
  shows "contest_inv w t' A st"
proof -
  have "utc_day t \<le> utc_day t'" using assms by (intro utc_day_mono) (auto simp: contest_inv_def)
  then show ?thesis using assms unfolding contest_inv_def by (meson le_trans less_le_trans order_trans)
qed

lemma contest_inv_record:
  assumes inv: "contest_inv w t A st" and live: "\<not> simulate" "success" "\<not> checkTx" "\<not> SnapshotDone st"
  shows "contest_inv w t (A \<union> {utc_day t} \<times> active_senders st msgs) (PostHandle t checkTx simulate success msgs st)"
proof -
  let ?st' = "foldl (record_msg (utc_day t)) st msgs" and ?A' = "A \<union> {utc_day t} \<times> active_senders st msgs"
  have st': "PostHandle t checkTx simulate success msgs st = ?st'"
    using live by (simp add: PostHandle_def)
  have ok: "kv_ok (DailyUAWPrefix st)" using inv by (simp add: contest_inv_def)
  note R = record_fold [OF ok, of "utc_day t" msgs]
  have marks: "kv_get (DailyUAWPrefix ?st') (d, x) = None \<longleftrightarrow>
      kv_get (DailyUAWPrefix st) (d, x) = None \<and> \<not> (d = utc_day t \<and> x \<in> active_senders st msgs)" for d x
    using R by (metis fst_conv snd_conv)
  have "(d, x) \<in> ?A' \<and> kv_get (DailyUAWPrefix ?st') (d, x) = None \<longleftrightarrow>
      (d, x) \<in> A \<and> kv_get (DailyUAWPrefix st) (d, x) = None" for d x
    using inv unfolding contest_inv_def marks by (metis (no_types, lifting) SigmaD1 SigmaD2 Un_iff less_irrefl singletonD)
  then have cred: "credited ?st' ?A' x = credited st A x" for x
    unfolding credited_def by (intro Collect_cong) simp
  have pend: "kv_get (DailyUAWPrefix ?st') k \<noteq> None \<Longrightarrow> k \<in> ?A'" for k
    using R inv unfolding contest_inv_def by (cases k) (metis SigmaI UnCI fst_conv singletonI snd_conv)
  have old: "(d, x) \<in> ?A' \<Longrightarrow> d \<le> utc_day t" for d x
    using inv by (auto simp: contest_inv_def)
  have done': "(d, x) \<in> ?A' \<Longrightarrow> kv_get (DailyUAWPrefix ?st') (d, x) = None \<Longrightarrow> d < utc_day t" for d x
    using \<open>(d, x) \<in> ?A' \<and> _ \<longleftrightarrow> _\<close> inv unfolding contest_inv_def by blast
  show ?thesis
    unfolding st' contest_inv_def
  proof (intro conjI allI impI)
    show "0 \<le> t" "t < 2 ^ 63" using inv by (simp_all add: contest_inv_def)
    show "kv_ok (DailyUAWPrefix ?st')" "WeightUAW (GetParams_contest ?st') = w"
      using R inv by (simp_all add: contest_inv_def)
    show "k \<in> ?A'" if "kv_get (DailyUAWPrefix ?st') k \<noteq> None" for k by (rule pend [OF that])
    show "d \<le> utc_day t" if "(d, x) \<in> ?A'" for d x by (rule old [OF that])
    show "d < utc_day t" if "(d, x) \<in> ?A' \<and> kv_get (DailyUAWPrefix ?st') (d, x) = None" for d x
      using done' that by blast
    show "tester_points ?st' x = u64 (w * card (credited ?st' ?A' x))" for x
      using R inv by (simp add: cred contest_inv_def)
  qed
qed

lemma contest_inv_end:
  assumes inv: "contest_inv w t A st" and "finite A"
  shows "contest_inv w t A (EndBlock_contest t st)"
    and "\<not> SnapshotDone st \<Longrightarrow> credited (EndBlock_contest t st) A x = {d. (d, x) \<in> A \<and> d < utc_day t}"
proof -
  let ?st1 = "rollupUAW st (utc_day t) w" and ?st' = "EndBlock_contest t st"
  have ok: "kv_ok (DailyUAWPrefix st)" and lt: "tester_points st x < 2 ^ 64" for x
    using inv u64_less by (auto simp: contest_inv_def)
  note R = rollupUAW_effect [OF ok lt, of "utc_day t" w]
  have w: "WeightUAW (GetParams_contest st) = w" using inv by (simp add: contest_inv_def)
  have st': "?st' = (if 0 < SnapshotUnix (GetParams_contest st) \<and> t \<ge> SnapshotUnix (GetParams_contest st)
      then setSnapshotDone ?st1 else ?st1)" if "\<not> SnapshotDone st"
    using that by (simp add: EndBlock_contest_def Let_def w)
  have same: "DailyUAWPrefix ?st' = DailyUAWPrefix ?st1" "tester_points ?st' x = tester_points ?st1 x"
    "GetParams_contest ?st' = GetParams_contest ?st1" if "\<not> SnapshotDone st" for x
    by (simp_all add: st' [OF that] setSnapshotDone_def tester_points_def GetParams_contest_def)
  have cred: "credited ?st' A x = {d. (d, x) \<in> A \<and> d < utc_day t}" if "\<not> SnapshotDone st" for x
    using inv unfolding credited_def same(1) [OF that] R(2) contest_inv_def by auto
  then show "\<not> SnapshotDone st \<Longrightarrow> credited (EndBlock_contest t st) A x = {d. (d, x) \<in> A \<and> d < utc_day t}" .
  show "contest_inv w t A ?st'"
  proof (cases "SnapshotDone st")
    case True
    then show ?thesis using inv by (simp add: EndBlock_contest_def)
  next
    case False
    have pts: "tester_points ?st' x = u64 (w * card (credited ?st' A x))" for x
    proof -
      let ?old = "credited st A x" and ?new = "{d. d < utc_day t \<and> kv_get (DailyUAWPrefix st) (d, x) \<noteq> None}"
      have "finite ?old"
        by (rule finite_subset [of _ "fst ` A"]) (use \<open>finite A\<close> in \<open>force simp: credited_def\<close>)+
      moreover have "?old \<inter> ?new = {}" by (auto simp: credited_def)
      moreover have "credited ?st' A x = ?old \<union> ?new"
        unfolding cred [OF False] using inv by (auto simp: credited_def contest_inv_def not_Some_unit)
      ultimately have "card (credited ?st' A x) = card ?old + card ?new" by (simp add: card_Un_disjoint)
      moreover have "tester_points ?st' x = u64 (u64 (w * card ?old) + w * card ?new)"
        using R(1) [of x] inv by (simp add: same(2) [OF False] contest_inv_def)
      ultimately show ?thesis by (simp add: u64_def mod_add_left_eq distrib_left)
    qed
    show ?thesis
      unfolding contest_inv_def
    proof (intro conjI allI impI)
      show "0 \<le> t" "t < 2 ^ 63" using inv by (simp_all add: contest_inv_def)
      show "kv_ok (DailyUAWPrefix ?st')" "WeightUAW (GetParams_contest ?st') = w"
        using R w by (simp_all add: same [OF False])
      show "k \<in> A" if "kv_get (DailyUAWPrefix ?st') k \<noteq> None" for k
        using that inv by (cases k) (auto simp: same [OF False] R contest_inv_def split: if_splits)
      show "d \<le> utc_day t" if "(d, x) \<in> A" for d x using that inv unfolding contest_inv_def by blast
      show "d < utc_day t" if "(d, x) \<in> A \<and> kv_get (DailyUAWPrefix ?st') (d, x) = None" for d x
        using that cred [OF False, of x] by (auto simp: credited_def)
      show "tester_points ?st' x = u64 (w * card (credited ?st' A x))" for x by (rule pts)
    qed
  qed
qed

lemma finite_active_senders: "finite (active_senders st msgs)"
proof -
  have "active_senders st msgs \<subseteq> (\<lambda>m. case m of EthereumTx _ s \<Rightarrow> ToLower s | OtherMsg \<Rightarrow> []) ` set msgs"
    by (force simp: active_senders_def)
  then show ?thesis by (rule finite_subset) simp
qed

lemma contest_run_inv:
  assumes "contest_run IsHexAddress govAddr st0 t A st"
    and "DailyUAWPrefix st0 = []" "TesterPointsPrefix st0 = []" "WeightUAW (GetParams_contest st0) = w"
  shows "contest_inv w t A st \<and> finite A"
  using assms(1)
proof (induction rule: contest_run.induct)
  case (start t)
  then show ?case
    using assms(2-4) by (simp add: contest_inv_def credited_def tester_points_def u64_def)
next
  case (timed t A st op t')
  then have inv: "contest_inv w t' A st" and fin: "finite A" by (auto intro: contest_inv_later)
  show ?case
  proof (cases op)
    case (RecordTx t'' checkTx simulate success msgs)
    then have "t'' = t'" using timed by (simp add: op_time_def)
    with RecordTx inv fin contest_inv_record [OF inv, of simulate success checkTx msgs] show ?thesis
      by (auto simp: contest_exec_def op_activity_def PostHandle_def Let_def finite_active_senders)
  next
    case (EndOfBlock t'')
    then have "t'' = t'" using timed by (simp add: op_time_def)
    with EndOfBlock contest_inv_end(1) [OF inv fin] fin show ?thesis
      by (simp add: contest_exec_def op_activity_def Let_def)
  qed (use timed in \<open>simp_all add: op_time_def\<close>)
next
  case (message t A st op)
  then show ?case by (simp add: contest_inv_message)
qed

subsection \<open>Frozen means frozen\<close>

lemma dev_points_params:
  "dev_points M (p\<lparr>Admin := a\<rparr>) = dev_points M p" "dev_points M (p\<lparr>PasskeyEnabled := e\<rparr>) = dev_points M p"
  by (auto simp: dev_points_def fun_eq_iff Let_def split: option.splits)

lemma all_dev_points_params:
  "all_dev_points M (p\<lparr>Admin := a\<rparr>) v xs = all_dev_points M p v xs"
  "all_dev_points M (p\<lparr>PasskeyEnabled := e\<rparr>) v xs = all_dev_points M p v xs"
  by (induction xs) (auto simp: dev_points_params)

lemma frozen_step:
  assumes "SnapshotDone st"
  shows "SnapshotDone (contest_exec IsHexAddress govAddr st op) \<and>
    ExportAllocation M (contest_exec IsHexAddress govAddr st op) = ExportAllocation M st"
  using assms
  by (cases op)
    (simp_all add: contest_exec_def PostHandle_def EndBlock_contest_def RegisterShowcase_def RemoveShowcase_def
      SetPasskeyEnabled_def SetAdmin_contest_def and_then_def Let_def SetShowcase_def DeleteShowcase_def
      SetParams_contest_def GetParams_contest_def SnapshotDone_def ExportAllocation_def IterateDev_def
      IterateTester_def all_dev_points_params split: sum.splits)

subsection \<open>Properties\<close>



text \<open>
  (C4) A day counts once. In every run of the contest, whatever transactions, messages and
  blocks it has, after the end of a block before the snapshot a tester's points are the weight
  times the number of distinct earlier days on which the tester called an approved contract in a
  successful transaction, in 64-bit arithmetic.
\<close>

theorem unique_active_days:
  assumes "contest_run IsHexAddress govAddr st0 t A st"
    and "DailyUAWPrefix st0 = []" and "TesterPointsPrefix st0 = []" and "\<not> SnapshotDone st"
  shows "tester_points (EndBlock_contest t st) x =
    u64 (WeightUAW (GetParams_contest st0) * card {d. (d, x) \<in> A \<and> d < utc_day t})"
proof -
  have inv: "contest_inv (WeightUAW (GetParams_contest st0)) t A st" "finite A"
    using contest_run_inv [OF assms(1-3)] by auto
  show ?thesis
    using contest_inv_end(1) [OF inv] contest_inv_end(2) [OF inv assms(4), of x] by (simp add: contest_inv_def)
qed

definition sample_contest :: contest_store where
  "sample_contest = \<lparr>ct_ParamsKey = None,
     ShowcasePrefix = [(''0xab'', Json \<lparr>sc_Address = ''0xab'', Dev = ''dev'', VM = ''evm'', Approved = True\<rparr>)],
     DevStatsPrefix = [], TesterPointsPrefix = [], DailyUAWPrefix = [], SnapshotDoneKey = False\<rparr>"

theorem unique_active_days_witness:
  "tester_points (EndBlock_contest 86400 (contest_exec (\<lambda>_. True) ''gov'' sample_contest
     (RecordTx 5 False False True [EthereumTx (Some ''0xAB'') ''0xC''])))  ''0xc'' = 10"
proof -
  let ?op = "RecordTx 5 False False True [EthereumTx (Some ''0xAB'') ''0xC'']"
  let ?st = "contest_exec (\<lambda>_. True) ''gov'' sample_contest ?op"
  have low: "ToLower ''0xAB'' = ''0xab''" "ToLower ''0xC'' = ''0xc''"
    by code_simp+
  have act: "op_activity sample_contest ?op = {(0, ''0xc'')}"
    by (auto simp: op_activity_def active_senders_def sample_contest_def SnapshotDone_def GetShowcase_def low
        utc_day_def quo_def)
  have run: "contest_run (\<lambda>_. True) ''gov'' sample_contest 5 ({} \<union> op_activity sample_contest ?op) ?st"
    by (rule contest_run.timed [OF contest_run.start [of 0]]) (simp_all add: op_time_def)
  have run2: "contest_run (\<lambda>_. True) ''gov'' sample_contest 86400
      (({} \<union> op_activity sample_contest ?op) \<union> op_activity ?st (RecordTx 86400 True False True []))
      (contest_exec (\<lambda>_. True) ''gov'' ?st (RecordTx 86400 True False True []))"
    by (rule contest_run.timed [OF run]) (simp_all add: op_time_def)
  have same: "contest_exec (\<lambda>_. True) ''gov'' ?st (RecordTx 86400 True False True []) = ?st"
    by (simp add: contest_exec_def PostHandle_def Let_def)
  have none: "op_activity ?st (RecordTx 86400 True False True []) = {}"
    by (simp add: op_activity_def)
  have "\<not> SnapshotDone ?st"
    by (simp add: contest_exec_def PostHandle_def SnapshotDone_def sample_contest_def Let_def)
  from unique_active_days [OF run2 [unfolded same none act] _ _ this, of "''0xc''"] show ?thesis
    by (simp add: sample_contest_def GetParams_contest_def DefaultParams_contest_def u64_def utc_day_def quo_def)
qed

text \<open>
  (C21) The snapshot is final: once it is taken, no sequence of transactions, blocks, registry
  messages or administrator changes alters the allocation that is exported.
\<close>

theorem snapshot_final:
  assumes "SnapshotDone st"
  shows "SnapshotDone (foldl (contest_exec IsHexAddress govAddr) st ops) \<and>
    ExportAllocation M (foldl (contest_exec IsHexAddress govAddr) st ops) = ExportAllocation M st"
  using assms
proof (induction ops arbitrary: st)
  case (Cons op ops)
  then show ?case using frozen_step [of st IsHexAddress govAddr op M] by simp
qed simp

theorem snapshot_final_witness:
  "ExportAllocation decimal (foldl (contest_exec (\<lambda>_. True) ''gov'') (setSnapshotDone sample_contest)
     [Rotate ''gov'' ''eve'', Remove ''eve'' ''0xAB'', EndOfBlock 86400])
   = ExportAllocation decimal (setSnapshotDone sample_contest)"
  using snapshot_final [of "setSnapshotDone sample_contest" "\<lambda>_. True" "''gov''"
      "[Rotate ''gov'' ''eve'', Remove ''eve'' ''0xAB'', EndOfBlock 86400]" decimal]
  by (simp add: setSnapshotDone_def SnapshotDone_def)

end
