(* ===== verification/GasSponsor.thy ===== *)
theory GasSponsor
  imports SponsorPool Contest
begin

text \<open>
  \<open>x/gassponsor\<close>: whether the gas pool pays a transaction's fee, and the refill of that pool
  by minting. The decision falls through four paths: an approved contest contract, the
  contract's escrow in \<open>x/sponsorpool\<close>, the account's daily budget, and a one-time grant for
  an empty account. Counters per day, contract and account live under byte keys as decimal
  strings; the events the module emits are part of the result. The hex form of an address is a
  parameter, an address itself its bytes.
\<close>

subsection \<open>Parameters\<close>

record gassponsor_params =
  gs_Enabled :: bool
  BaselineDaily :: string
  RefillEnabled :: bool
  MinPoolBalance :: string
  ColdStartDaily :: string
  BalanceDivisor :: string
  DappPerTxFeeCap :: string
  RefillDailyMintCap :: string
  DappDailyCap :: string
  DailyBudget :: string
  HoldMinimum :: string
  OnboardingGrant :: string
  OnboardingDailyCap :: string

record gassponsor_store =
  gs_ParamsKey :: "gassponsor_params blob option"
  gs_kv :: "bytes \<Rightarrow> string option"

abbreviation (input) "GasSponsorModuleName \<equiv> ''gassponsor''"

definition DefaultParams_gassponsor :: gassponsor_params where
  "DefaultParams_gassponsor = \<lparr>gs_Enabled = True, BaselineDaily = ''1000000000000000000'',
     RefillEnabled = True, MinPoolBalance = ''200000000000000000000000000'',
     ColdStartDaily = ''100000000000000000'', BalanceDivisor = ''1'',
     DappPerTxFeeCap = ''1000000000000000000'', RefillDailyMintCap = ''0'', DappDailyCap = ''0'',
     DailyBudget = ''1000000000000000000'', HoldMinimum = ''1000000000000000000'',
     OnboardingGrant = ''50000000000000000'', OnboardingDailyCap = ''0''\<rparr>"

text \<open>A field that may be empty and must otherwise be a non-negative integer.\<close>

definition optional_nonneg :: "sdk_math \<Rightarrow> string \<Rightarrow> bool" where
  "optional_nonneg M s = (s = [] \<or> (case NewIntFromString M s of None \<Rightarrow> False | Some c \<Rightarrow> \<not> c < 0))"

definition Validate_gassponsor :: "sdk_math \<Rightarrow> gassponsor_params \<Rightarrow> unit result" where
  "Validate_gassponsor M p =
    (if NewIntFromString M (BaselineDaily p) = None then Inl (Error ''invalid baseline_daily'')
     else if NewIntFromString M (MinPoolBalance p) = None then Inl (Error ''invalid min_pool_balance'')
     else if ColdStartDaily p \<noteq> [] \<and> NewIntFromString M (ColdStartDaily p) = None
     then Inl (Error ''invalid cold_start_daily'')
     else if BalanceDivisor p \<noteq> [] \<and>
       (case NewIntFromString M (BalanceDivisor p) of None \<Rightarrow> True | Some d \<Rightarrow> \<not> 0 < d)
     then Inl (Error ''invalid balance_divisor'')
     else if \<not> optional_nonneg M (DappPerTxFeeCap p) then Inl (Error ''invalid dapp_per_tx_fee_cap'')
     else if \<not> optional_nonneg M (RefillDailyMintCap p) then Inl (Error ''invalid refill_daily_mint_cap'')
     else if \<not> optional_nonneg M (DappDailyCap p) then Inl (Error ''invalid dapp_daily_cap'')
     else if \<not> optional_nonneg M (DailyBudget p) then Inl (Error ''invalid daily_budget'')
     else if \<not> optional_nonneg M (HoldMinimum p) then Inl (Error ''invalid hold_minimum'')
     else if \<not> optional_nonneg M (OnboardingGrant p) then Inl (Error ''invalid onboarding_grant'')
     else if \<not> optional_nonneg M (OnboardingDailyCap p) then Inl (Error ''invalid onboarding_daily_cap'')
     else Inr ())"

definition SetParams_gassponsor :: "gassponsor_store \<Rightarrow> gassponsor_params \<Rightarrow> gassponsor_store" where
  "SetParams_gassponsor st p = st\<lparr>gs_ParamsKey := Some (Json p)\<rparr>"

definition GetParams_gassponsor :: "gassponsor_store \<Rightarrow> gassponsor_params" where
  "GetParams_gassponsor st = read_or DefaultParams_gassponsor (gs_ParamsKey st)"

definition InitGenesis_gassponsor :: "gassponsor_store \<Rightarrow> gassponsor_params \<Rightarrow> gassponsor_store" where
  "InitGenesis_gassponsor st gs = SetParams_gassponsor st gs"

definition ExportGenesis_gassponsor :: "gassponsor_store \<Rightarrow> gassponsor_params" where
  "ExportGenesis_gassponsor st = GetParams_gassponsor st"

text \<open>The upgrade that installs the caps on a running chain, with its constants.\<close>

definition applySecurityCaps :: "gassponsor_store \<Rightarrow> gassponsor_store" where
  "applySecurityCaps st =
    (let p = GetParams_gassponsor st
     in SetParams_gassponsor st (p\<lparr>DappPerTxFeeCap := ''1000000000000000000'', RefillDailyMintCap := ''10000000000000000000000'',
       DailyBudget := ''1000000000000000000'', HoldMinimum := ''1000000000000000000'', OnboardingGrant := ''50000000000000000''\<rparr>))"

interpretation gassponsor: params_store SetParams_gassponsor GetParams_gassponsor
  by unfold_locales (simp_all add: SetParams_gassponsor_def GetParams_gassponsor_def)

subsection \<open>Counters\<close>

definition AllowancePrefix :: bytes where "AllowancePrefix = [2]"
definition MintedTodayPrefix :: bytes where "MintedTodayPrefix = [3]"
definition OnboardingPrefix :: bytes where "OnboardingPrefix = [5]"
definition GrantedTodayPrefix :: bytes where "GrantedTodayPrefix = [6]"
definition DappSpentPrefix :: bytes where "DappSpentPrefix = [7]"

definition allowanceKey :: "nat \<Rightarrow> addr \<Rightarrow> bytes" where
  "allowanceKey day sender = AllowancePrefix @ u64_bytes day @ str_bytes sender"

definition mintedTodayKey :: "nat \<Rightarrow> bytes" where
  "mintedTodayKey day = MintedTodayPrefix @ u64_bytes day"

definition dappSpentKey :: "nat \<Rightarrow> addr \<Rightarrow> bytes" where
  "dappSpentKey day to = DappSpentPrefix @ u64_bytes day @ str_bytes to"

definition grantedTodayKey :: "nat \<Rightarrow> bytes" where
  "grantedTodayKey day = GrantedTodayPrefix @ u64_bytes day"

definition onboardingKey :: "addr \<Rightarrow> bytes" where
  "onboardingKey sender = OnboardingPrefix @ str_bytes sender"

definition counter :: "sdk_math \<Rightarrow> gassponsor_store \<Rightarrow> bytes \<Rightarrow> int" where
  "counter M st key = read_int M (gs_kv st key)"

definition set_counter :: "sdk_math \<Rightarrow> gassponsor_store \<Rightarrow> bytes \<Rightarrow> int \<Rightarrow> gassponsor_store" where
  "set_counter M st key v = st\<lparr>gs_kv := (gs_kv st)(key := Some (IntString M v))\<rparr>"

definition allowanceUsed :: "sdk_math \<Rightarrow> gassponsor_store \<Rightarrow> nat \<Rightarrow> addr \<Rightarrow> int" where
  "allowanceUsed M st day sender = counter M st (allowanceKey day sender)"

definition setAllowanceUsed :: "sdk_math \<Rightarrow> gassponsor_store \<Rightarrow> nat \<Rightarrow> addr \<Rightarrow> int \<Rightarrow> gassponsor_store" where
  "setAllowanceUsed M st day sender v = set_counter M st (allowanceKey day sender) v"

definition mintedToday :: "sdk_math \<Rightarrow> gassponsor_store \<Rightarrow> nat \<Rightarrow> int" where
  "mintedToday M st day = counter M st (mintedTodayKey day)"

definition setMintedToday :: "sdk_math \<Rightarrow> gassponsor_store \<Rightarrow> nat \<Rightarrow> int \<Rightarrow> gassponsor_store" where
  "setMintedToday M st day v = set_counter M st (mintedTodayKey day) v"

definition dappSpentToday :: "sdk_math \<Rightarrow> gassponsor_store \<Rightarrow> nat \<Rightarrow> addr \<Rightarrow> int" where
  "dappSpentToday M st day to = counter M st (dappSpentKey day to)"

definition addDappSpent :: "sdk_math \<Rightarrow> gassponsor_store \<Rightarrow> nat \<Rightarrow> addr \<Rightarrow> int \<Rightarrow> gassponsor_store" where
  "addDappSpent M st day to amt = set_counter M st (dappSpentKey day to) (dappSpentToday M st day to + amt)"

definition grantedToday :: "sdk_math \<Rightarrow> gassponsor_store \<Rightarrow> nat \<Rightarrow> int" where
  "grantedToday M st day = counter M st (grantedTodayKey day)"

definition addGrantedToday :: "sdk_math \<Rightarrow> gassponsor_store \<Rightarrow> nat \<Rightarrow> int \<Rightarrow> gassponsor_store" where
  "addGrantedToday M st day amt = set_counter M st (grantedTodayKey day) (grantedToday M st day + amt)"

definition onboardingUsed :: "sdk_math \<Rightarrow> gassponsor_store \<Rightarrow> addr \<Rightarrow> int" where
  "onboardingUsed M st sender = counter M st (onboardingKey sender)"

definition setOnboardingUsed :: "sdk_math \<Rightarrow> gassponsor_store \<Rightarrow> addr \<Rightarrow> int \<Rightarrow> gassponsor_store" where
  "setOnboardingUsed M st sender v = set_counter M st (onboardingKey sender) v"

subsection \<open>Events\<close>

datatype sponsor_path = PathDapp | PathEscrow | PathBaseline | PathOnboarding

text \<open>
  The events with their attributes: the path, amount, account and contract of a sponsored
  transaction with the remaining allowance, the running total of a contract, the refusal at a
  contract's daily cap, the refill and the refill's circuit breaker.
\<close>

datatype gassponsor_event =
    GsSponsored sponsor_path int addr "addr option" int
  | GsDappDaily addr int string
  | GsDappDailyCapped addr int int string
  | GsRefill int
  | GsRefillCapped int int int

subsection \<open>The decision\<close>

definition dappRemaining :: "sdk_math \<Rightarrow> gassponsor_params \<Rightarrow> int \<Rightarrow> int" where
  "dappRemaining M p amt = (case NewIntFromString M (DappPerTxFeeCap p) of
      None \<Rightarrow> -1 | Some c \<Rightarrow> if \<not> 0 < c then -1 else c - amt)"

definition withinDappCap :: "sdk_math \<Rightarrow> gassponsor_params \<Rightarrow> int \<Rightarrow> bool" where
  "withinDappCap M p amt = (case NewIntFromString M (DappPerTxFeeCap p) of
      None \<Rightarrow> True | Some c \<Rightarrow> if \<not> 0 < c then True else amt \<le> c)"

definition withinDappDailyCap :: "sdk_math \<Rightarrow> gassponsor_store \<Rightarrow> gassponsor_params \<Rightarrow> nat \<Rightarrow> addr \<Rightarrow> int \<Rightarrow> bool" where
  "withinDappDailyCap M st p day to amt = (case NewIntFromString M (DappDailyCap p) of
      None \<Rightarrow> True | Some c \<Rightarrow> if \<not> 0 < c then True else dappSpentToday M st day to + amt \<le> c)"

definition effectiveAllowance :: "sdk_math \<Rightarrow> gassponsor_params \<Rightarrow> int \<Rightarrow> int" where
  "effectiveAllowance M p held =
    (case (case NewIntFromString M (DailyBudget p) of None \<Rightarrow> None | Some budget \<Rightarrow> if 0 < budget then Some budget else None) of
       Some budget \<Rightarrow>
         let minHold = (case NewIntFromString M (HoldMinimum p) of None \<Rightarrow> 0 | Some m \<Rightarrow> if 0 < m then m else 0)
         in if 0 < held \<and> held \<ge> minHold then budget else 0
     | None \<Rightarrow>
         (case NewIntFromString M (BaselineDaily p) of
            None \<Rightarrow> 0
          | Some baseline \<Rightarrow>
              if \<not> 0 < baseline then 0
              else
                let cold = (case NewIntFromString M (ColdStartDaily p) of None \<Rightarrow> 0 | Some c \<Rightarrow> c);
                    divisor = (case NewIntFromString M (BalanceDivisor p) of None \<Rightarrow> 1 | Some d \<Rightarrow> if \<not> 0 < d then 1 else d);
                    allow = cold + quo held divisor
                in if allow > baseline then baseline else allow))"

definition tryOnboarding ::
    "sdk_math \<Rightarrow> gassponsor_params \<Rightarrow> nat \<Rightarrow> addr \<Rightarrow> addr option \<Rightarrow> int \<Rightarrow> int \<Rightarrow> gassponsor_store \<Rightarrow>
     bool \<times> gassponsor_event list \<times> gassponsor_store" where
  "tryOnboarding M p day sender to held amt st =
    (case NewIntFromString M (OnboardingGrant p) of
       None \<Rightarrow> (False, [], st)
     | Some grant \<Rightarrow>
         if \<not> 0 < grant then (False, [], st)
         else if held \<noteq> 0 then (False, [], st)
         else
           let used = onboardingUsed M st sender; newUsed = used + amt in
           if newUsed > grant then (False, [], st)
           else if (case NewIntFromString M (OnboardingDailyCap p) of None \<Rightarrow> False
               | Some dailyCap \<Rightarrow> 0 < dailyCap \<and> grantedToday M st day + amt > dailyCap)
           then (False, [], st)
           else
             let st1 = setOnboardingUsed M st sender newUsed;
                 st2 = addGrantedToday M st1 day amt
             in (True, [GsSponsored PathOnboarding amt sender to (grant - newUsed)], st2))"

text \<open>
  The first path, with what it emits and writes; \<open>False\<close> falls through. \<open>Hex\<close> is the
  checksummed hex form of an address.
\<close>

definition dapp_path ::
    "sdk_math \<Rightarrow> (addr \<Rightarrow> string) \<Rightarrow> contest_store \<Rightarrow> gassponsor_params \<Rightarrow> nat \<Rightarrow> addr \<Rightarrow> addr option \<Rightarrow> int \<Rightarrow>
     gassponsor_store \<Rightarrow> bool \<times> gassponsor_event list \<times> gassponsor_store" where
  "dapp_path M Hex ct p day sender to amt st = (case to of
      None \<Rightarrow> (False, [], st)
    | Some a \<Rightarrow>
        (case GetShowcase ct (ToLower (Hex a)) of
           None \<Rightarrow> (False, [], st)
         | Some app \<Rightarrow>
             if \<not> (Approved app \<and> (VM app = [] \<or> VM app = ''evm'')) then (False, [], st)
             else if \<not> withinDappCap M p amt then (False, [], st)
             else if \<not> withinDappDailyCap M st p day a amt
             then (False, [GsDappDailyCapped a (dappSpentToday M st day a) amt (DappDailyCap p)], st)
             else
               let st1 = addDappSpent M st day a amt
               in (True, [GsSponsored PathDapp amt sender to (dappRemaining M p amt),
                    GsDappDaily a (dappSpentToday M st1 day a) (DappDailyCap p)], st1)))"

text \<open>
  \<open>IsSponsored\<close>: sponsored or not and whether through an approved contract or its escrow, the
  events, and the two stores. \<open>pool\<close> is whether the keeper was given the sponsor pool.
\<close>

definition IsSponsored ::
    "'b bank \<Rightarrow> sdk_math \<Rightarrow> (addr \<Rightarrow> string) \<Rightarrow> bool \<Rightarrow> 'b \<Rightarrow> contest_store \<Rightarrow> int \<Rightarrow> addr \<Rightarrow> addr option \<Rightarrow> coins \<Rightarrow>
     gassponsor_store \<times> sponsorpool_store \<Rightarrow>
     (bool \<times> bool) \<times> gassponsor_event list \<times> gassponsor_store \<times> sponsorpool_store" where
  "IsSponsored bk M Hex pool b ct blockTime sender to fees = (\<lambda>(st, sp).
    let p = GetParams_gassponsor st in
    if \<not> gs_Enabled p then ((False, False), [], st, sp)
    else
      let amt = AmountOf fees FeeDenom in
      if \<not> 0 < amt then ((False, False), [], st, sp)
      else
        let day = utc_day blockTime in
        (case dapp_path M Hex ct p day sender to amt st of (granted, evs, st1) \<Rightarrow>
          if granted then ((True, True), evs, st1, sp)
          else
            (case (case to of None \<Rightarrow> (False, sp)
                | Some a \<Rightarrow> if pool then Reserve M (ToLower (Hex a)) amt sp else (False, sp)) of (paid, sp1) \<Rightarrow>
              if paid then ((True, True), evs @ [GsSponsored PathEscrow amt sender to (-1)], st1, sp1)
              else
                let held = bk_balance bk b sender FeeDenom;
                    allow = effectiveAllowance M p held;
                    used = allowanceUsed M st1 day sender in
                if 0 < allow \<and> used + amt \<le> allow
                then ((True, False), evs @ [GsSponsored PathBaseline amt sender to (allow - (used + amt))],
                  setAllowanceUsed M st1 day sender (used + amt), sp1)
                else
                  (case tryOnboarding M p day sender to held amt st1 of (granted', evs', st2) \<Rightarrow>
                    ((granted', False), evs @ evs', st2, sp1)))))"

subsection \<open>The refill\<close>

definition BeginBlock_gassponsor ::
    "'b bank \<Rightarrow> sdk_math \<Rightarrow> int \<Rightarrow> 'b \<times> gassponsor_store \<Rightarrow> (gassponsor_event list \<times> 'b \<times> gassponsor_store) result" where
  "BeginBlock_gassponsor bk M blockTime = (\<lambda>(b, st).
    let p = GetParams_gassponsor st in
    if \<not> RefillEnabled p then Inr ([], b, st)
    else case NewIntFromString M (MinPoolBalance p) of
      None \<Rightarrow> Inr ([], b, st)
    | Some target \<Rightarrow>
        if \<not> 0 < target then Inr ([], b, st)
        else
          let bal = bk_balance bk b (bk_modaddr bk GasPoolName) FeeDenom in
          if bal \<ge> target then Inr ([], b, st)
          else
            let deficit = target - bal;
                day = utc_day blockTime;
                limit = (case NewIntFromString M (RefillDailyMintCap p) of None \<Rightarrow> None
                  | Some c \<Rightarrow> if 0 < c then Some c else None);
                remaining = map_option (\<lambda>c. c - mintedToday M st day) limit in
            if (case remaining of None \<Rightarrow> False | Some r \<Rightarrow> \<not> 0 < r)
            then Inr ([GsRefillCapped deficit (mintedToday M st day) (the limit)], b, st)
            else
              let capped = (case remaining of None \<Rightarrow> False | Some r \<Rightarrow> deficit > r);
                  mintAmt = (if capped then the remaining else deficit);
                  coins = NewCoins FeeDenom mintAmt in
              and_then (MintCoins bk b GasSponsorModuleName coins) (\<lambda>b1.
                and_then (SendCoinsFromModuleToModule bk b1 GasSponsorModuleName GasPoolName coins) (\<lambda>b2.
                  let st1 = setMintedToday M st day (mintedToday M st day + mintAmt)
                  in Inr ([GsRefill mintAmt] @ (if capped then [GsRefillCapped deficit mintAmt (the limit)] else []),
                       b2, st1))))"

subsection \<open>Counters do not interfere\<close>

lemma utc_day_less: "utc_day t < 2 ^ 64"
  by (simp add: utc_day_def nat_less_iff)

lemmas utc_day_bound [simp] = utc_day_less [simplified]

lemmas prefix_defs = AllowancePrefix_def MintedTodayPrefix_def OnboardingPrefix_def GrantedTodayPrefix_def
  DappSpentPrefix_def

lemmas key_defs = allowanceKey_def mintedTodayKey_def dappSpentKey_def grantedTodayKey_def onboardingKey_def prefix_defs


lemma key_distinct [simp]:
  "allowanceKey d s \<noteq> dappSpentKey d' s'" "allowanceKey d s \<noteq> mintedTodayKey d'"
  "allowanceKey d s \<noteq> grantedTodayKey d'" "allowanceKey d s \<noteq> onboardingKey s'"
  "dappSpentKey d s \<noteq> allowanceKey d' s'" "dappSpentKey d s \<noteq> mintedTodayKey d'"
  "dappSpentKey d s \<noteq> grantedTodayKey d'" "dappSpentKey d s \<noteq> onboardingKey s'"
  "mintedTodayKey d \<noteq> allowanceKey d' s'" "mintedTodayKey d \<noteq> dappSpentKey d' s'"
  "mintedTodayKey d \<noteq> grantedTodayKey d'" "mintedTodayKey d \<noteq> onboardingKey s'"
  "grantedTodayKey d \<noteq> allowanceKey d' s'" "grantedTodayKey d \<noteq> dappSpentKey d' s'"
  "grantedTodayKey d \<noteq> mintedTodayKey d'" "grantedTodayKey d \<noteq> onboardingKey s'"
  "onboardingKey s \<noteq> allowanceKey d' s'" "onboardingKey s \<noteq> dappSpentKey d' s'"
  "onboardingKey s \<noteq> mintedTodayKey d'" "onboardingKey s \<noteq> grantedTodayKey d'"
  by (simp_all add: key_defs)

lemmas counter_defs = allowanceUsed_def setAllowanceUsed_def mintedToday_def setMintedToday_def
  dappSpentToday_def addDappSpent_def grantedToday_def addGrantedToday_def onboardingUsed_def setOnboardingUsed_def

lemma GetParams_set_counter [simp]: "GetParams_gassponsor (set_counter M st k v) = GetParams_gassponsor st"
  by (simp add: set_counter_def GetParams_gassponsor_def)


subsection \<open>The outcomes of a decision\<close>

text \<open>What the events say was spent: path, amount, account and contract.\<close>

type_synonym spend = "sponsor_path \<times> int \<times> addr \<times> addr option"

fun spends :: "gassponsor_event list \<Rightarrow> spend list" where
  "spends [] = []"
| "spends (GsSponsored path amt s to _ # es) = (path, amt, s, to) # spends es"
| "spends (_ # es) = spends es"

lemma spends_append [simp]: "spends (xs @ ys) = spends xs @ spends ys"
  by (induction xs rule: spends.induct) auto

lemma dapp_path_outcome:
  assumes "dapp_path M Hex ct p day sender to amt st = (granted, evs, st1)"
  shows "\<not> granted \<and> st1 = st \<and> spends evs = [] \<or>
    granted \<and> (\<exists>a. to = Some a \<and> spends evs = [(PathDapp, amt, sender, to)] \<and>
      st1 = addDappSpent M st day a amt \<and> withinDappDailyCap M st p day a amt)"
  using assms by (auto simp: dapp_path_def Let_def split: option.splits if_splits)

text \<open>The conditions under which the one-time grant pays.\<close>

definition onboarding_within :: "sdk_math \<Rightarrow> gassponsor_params \<Rightarrow> gassponsor_store \<Rightarrow> nat \<Rightarrow> addr \<Rightarrow> int \<Rightarrow> bool" where
  "onboarding_within M p st day sender amt \<longleftrightarrow>
    (\<exists>grant. NewIntFromString M (OnboardingGrant p) = Some grant \<and> onboardingUsed M st sender + amt \<le> grant) \<and>
    (\<forall>c. NewIntFromString M (OnboardingDailyCap p) = Some c \<longrightarrow> 0 < c \<longrightarrow> grantedToday M st day + amt \<le> c)"

lemma tryOnboarding_outcome:
  assumes "tryOnboarding M p day sender to held amt st = (granted, evs, st1)"
  shows "\<not> granted \<and> st1 = st \<and> spends evs = [] \<or>
    granted \<and> spends evs = [(PathOnboarding, amt, sender, to)] \<and> onboarding_within M p st day sender amt \<and>
      st1 = addGrantedToday M (setOnboardingUsed M st sender (onboardingUsed M st sender + amt)) day amt"
  using assms by (auto simp: tryOnboarding_def onboarding_within_def Let_def not_less split: option.splits if_splits)

text \<open>A decision as one of its five outcomes, with what it does to the module's store.\<close>

definition outcome ::
    "sdk_math \<Rightarrow> int \<Rightarrow> nat \<Rightarrow> addr \<Rightarrow> int \<Rightarrow> gassponsor_store \<Rightarrow> spend list \<Rightarrow> gassponsor_store \<Rightarrow> bool" where
  "outcome M allow day sender amt st sps st' \<longleftrightarrow>
    (let p = GetParams_gassponsor st in
     sps = [] \<and> st' = st \<or>
     (\<exists>a. sps = [(PathDapp, amt, sender, Some a)] \<and> withinDappDailyCap M st p day a amt \<and> st' = addDappSpent M st day a amt) \<or>
     (\<exists>to. sps = [(PathEscrow, amt, sender, to)] \<and> st' = st) \<or>
     (\<exists>to. sps = [(PathBaseline, amt, sender, to)] \<and> allowanceUsed M st day sender + amt \<le> allow \<and>
        st' = setAllowanceUsed M st day sender (allowanceUsed M st day sender + amt)) \<or>
     (\<exists>to. sps = [(PathOnboarding, amt, sender, to)] \<and> onboarding_within M p st day sender amt \<and>
        st' = addGrantedToday M (setOnboardingUsed M st sender (onboardingUsed M st sender + amt)) day amt))"

lemma IsSponsored_outcome:
  assumes run: "IsSponsored bk M Hex pool b ct t sender to fees (st, sp) = (r, evs, st', sp')"
  shows "outcome M (effectiveAllowance M (GetParams_gassponsor st) (bk_balance bk b sender FeeDenom))
      (utc_day t) sender (AmountOf fees FeeDenom) st (spends evs) st'"
    and "fst r \<longleftrightarrow> spends evs \<noteq> []"
    and "spends evs \<noteq> [] \<Longrightarrow> 0 < AmountOf fees FeeDenom"
proof -
  let ?p = "GetParams_gassponsor st" and ?amt = "AmountOf fees FeeDenom" and ?day = "utc_day t"
  let ?held = "bk_balance bk b sender FeeDenom"
  let ?out = "outcome M (effectiveAllowance M ?p ?held) ?day sender ?amt st (spends evs) st'"
  have "?out \<and> (fst r \<longleftrightarrow> spends evs \<noteq> []) \<and> (spends evs \<noteq> [] \<longrightarrow> 0 < ?amt)"
  proof (cases "gs_Enabled ?p \<and> 0 < ?amt")
    case False
    then have "(r, evs, st', sp') = ((False, False), [], st, sp)"
      using run by (cases "gs_Enabled ?p") (simp_all add: IsSponsored_def Let_def)
    then show ?thesis by (simp add: outcome_def Let_def)
  next
    case True
    obtain g1 e1 st1 where d: "dapp_path M Hex ct ?p ?day sender to ?amt st = (g1, e1, st1)"
      by (metis prod_cases3)
    note D = dapp_path_outcome [OF d]
    show ?thesis
    proof (cases g1)
      case True': True
      then have "(r, evs, st', sp') = ((True, True), e1, st1, sp)"
        using run True d by (simp add: IsSponsored_def Let_def)
      then show ?thesis using D True True' by (auto simp: outcome_def Let_def)
    next
      case False
      then have st1: "st1 = st" "spends e1 = []" using D by auto
      obtain g2 sp1 where res: "(case to of None \<Rightarrow> (False, sp)
          | Some a \<Rightarrow> if pool then Reserve M (ToLower (Hex a)) ?amt sp else (False, sp)) = (g2, sp1)"
        by (metis surj_pair)
      obtain g3 e3 st3 where o: "tryOnboarding M ?p ?day sender to ?held ?amt st = (g3, e3, st3)"
        by (metis prod_cases3)
      note O = tryOnboarding_outcome [OF o]
      let ?allow = "effectiveAllowance M ?p ?held" and ?used = "allowanceUsed M st ?day sender"
      have "(r, evs, st', sp') =
          (if g2 then ((True, True), e1 @ [GsSponsored PathEscrow ?amt sender to (-1)], st, sp1)
           else if 0 < ?allow \<and> ?used + ?amt \<le> ?allow
           then ((True, False), e1 @ [GsSponsored PathBaseline ?amt sender to (?allow - (?used + ?amt))],
             setAllowanceUsed M st ?day sender (?used + ?amt), sp1)
           else ((g3, False), e1 @ e3, st3, sp1))"
        using run True False
        by (cases g2; cases "0 < ?allow \<and> ?used + ?amt \<le> ?allow")
          (auto simp: IsSponsored_def Let_def d res st1(1) o)
      then show ?thesis
        using O True st1(2) by (auto simp: outcome_def Let_def split: if_splits)
    qed
  qed
  then show ?out and "fst r \<longleftrightarrow> spends evs \<noteq> []" and "spends evs \<noteq> [] \<Longrightarrow> 0 < ?amt" by auto
qed

subsection \<open>Runs\<close>

datatype gassponsor_entry = Spent nat spend | Minted nat int

fun mints :: "gassponsor_event list \<Rightarrow> int list" where
  "mints [] = []"
| "mints (GsRefill a # es) = a # mints es"
| "mints (_ # es) = mints es"

text \<open>
  What the module's events record over a run of decisions and refills, with everything else on
  the chain (balances, the contest, the sponsor pool) changing in between.
\<close>

inductive gassponsor_run ::
    "'b bank \<Rightarrow> sdk_math \<Rightarrow> (addr \<Rightarrow> string) \<Rightarrow> gassponsor_store \<Rightarrow> gassponsor_entry list \<Rightarrow> gassponsor_store \<Rightarrow> bool"
  for bk :: "'b bank" and M Hex st0 where
  start: "gassponsor_run bk M Hex st0 [] st0"
| decide: "gassponsor_run bk M Hex st0 log st \<Longrightarrow>
    IsSponsored bk M Hex pool b ct t sender to fees (st, sp) = (r, evs, st', sp') \<Longrightarrow>
    gassponsor_run bk M Hex st0 (log @ map (Spent (utc_day t)) (spends evs)) st'"
| refill: "gassponsor_run bk M Hex st0 log st \<Longrightarrow>
    BeginBlock_gassponsor bk M t (b, st) = Inr (evs, b', st') \<Longrightarrow>
    gassponsor_run bk M Hex st0 (log @ map (Minted (utc_day t)) (mints evs)) st'"







text \<open>The configured limits: a positive integer limits, anything else does not.\<close>

definition limited :: "sdk_math \<Rightarrow> string \<Rightarrow> int \<Rightarrow> bool" where
  "limited M s v = (case NewIntFromString M s of None \<Rightarrow> True | Some c \<Rightarrow> 0 < c \<longrightarrow> v \<le> c)"



lemma limited_zero [simp]: "limited M s 0"
  by (simp add: limited_def split: option.splits)







subsection \<open>Properties\<close>


text \<open>A store with a small daily budget and a cold account's grant, for the witnesses.\<close>

definition sample_gassponsor :: gassponsor_store where
  "sample_gassponsor = \<lparr>gs_ParamsKey = Some (Json (DefaultParams_gassponsor
     \<lparr>DailyBudget := ''100'', HoldMinimum := ''1'', MinPoolBalance := ''50'', RefillDailyMintCap := ''30''\<rparr>)),
     gs_kv = (\<lambda>_. None)\<rparr>"

definition sample_bank :: ledger where
  "sample_bank = \<lparr>l_balance = (\<lambda>a d. if a = ''dev'' then 1000 else 0), l_supply = (\<lambda>_. 1000)\<rparr>"






text \<open>
  (C22) A decision that does not sponsor leaves both stores as they were, and an account that
  holds the minimum is never refused while its daily budget lasts.
\<close>

theorem decision_sound:
  assumes "IsSponsored bk M Hex pool b ct t sender to fees (st, sp) = (r, evs, st', sp')"
  shows "(\<not> fst r \<longrightarrow> st' = st \<and> sp' = sp) \<and>
    (gs_Enabled (GetParams_gassponsor st) \<and> 0 < AmountOf fees FeeDenom \<and>
      allowanceUsed M st (utc_day t) sender + AmountOf fees FeeDenom
        \<le> effectiveAllowance M (GetParams_gassponsor st) (bk_balance bk b sender FeeDenom) \<and>
      0 \<le> allowanceUsed M st (utc_day t) sender \<longrightarrow> fst r)"
proof -
  have "st' = st" if "\<not> fst r"
    using IsSponsored_outcome(1,2) [OF assms] that by (auto simp: outcome_def Let_def)
  moreover have "sp' = sp" if "\<not> fst r"
    using assms that
    by (auto simp: IsSponsored_def Reserve_def Let_def split: prod.splits option.splits if_splits)
  moreover have "fst r" if *: "gs_Enabled (GetParams_gassponsor st)" "0 < AmountOf fees FeeDenom"
      "allowanceUsed M st (utc_day t) sender + AmountOf fees FeeDenom
        \<le> effectiveAllowance M (GetParams_gassponsor st) (bk_balance bk b sender FeeDenom)"
      "0 \<le> allowanceUsed M st (utc_day t) sender"
  proof -
    obtain g1 e1 st1 where d: "dapp_path M Hex ct (GetParams_gassponsor st) (utc_day t) sender to (AmountOf fees FeeDenom) st = (g1, e1, st1)"
      by (metis prod_cases3)
    have "\<not> g1 \<Longrightarrow> st1 = st" using dapp_path_outcome [OF d] by auto
    moreover have "0 < effectiveAllowance M (GetParams_gassponsor st) (bk_balance bk b sender FeeDenom)" using * by linarith
    ultimately show ?thesis
      using assms * d by (auto simp: IsSponsored_def Let_def split: prod.splits if_splits)
  qed
  ultimately show ?thesis by blast
qed

theorem decision_sound_witness:
  "fst (fst (IsSponsored ledger_bank decimal (\<lambda>a. a) False sample_bank sample_contest 0 ''dev'' None [(''aLIMO'', 40)]
     (sample_gassponsor, \<lparr>sp_ParamsKey = None, sp_kv = (\<lambda>_. None)\<rparr>)))"
proof -
  let ?sp = "\<lparr>sp_ParamsKey = None, sp_kv = (\<lambda>_. None)\<rparr>"
  obtain r evs st' sp' where r: "IsSponsored ledger_bank decimal (\<lambda>a. a) False sample_bank sample_contest 0 ''dev'' None
      [(''aLIMO'', 40)] (sample_gassponsor, ?sp) = (r, evs, st', sp')"
    by (metis prod_cases4)
  have "fst r"
    using decision_sound [OF r]
    by (simp add: sample_gassponsor_def GetParams_gassponsor_def sample_bank_def ledger_bank_def AmountOf_def
      counter_defs counter_def read_int_def decimal_def parse_int_def parse_nat_def parse_digit_def char_digit_def
      effectiveAllowance_def DefaultParams_gassponsor_def)
  then show ?thesis by (simp add: r)
qed

end
