(* ===== verification/NetCap.thy ===== *)
theory NetCap
  imports KVStore Sdk
begin

text \<open>
  \<open>x/netcap\<close> and its EVM decorator: restricted addresses may move only so much of the native
  coin out per window. The module keeps, per restricted address, when its window began and what
  it spent since. Addresses are their bech32 strings; whether an address is a module account is
  a parameter.
\<close>

subsection \<open>Parameters and state\<close>

record netcap_params =
  nc_Enabled :: bool
  RestrictedAddresses :: "string list"
  Whitelist :: "string list"
  WindowSeconds :: int
  CapPerWindow :: string

record window_spend =
  WindowStartUnix :: int
  Spent :: string

record netcap_store =
  nc_ParamsKey :: "netcap_params blob option"
  SpendPrefix :: "(string, window_spend blob) kv"

definition DefaultParams_netcap :: netcap_params where
  "DefaultParams_netcap = \<lparr>nc_Enabled = False, RestrictedAddresses = [], Whitelist = [], WindowSeconds = 0,
     CapPerWindow = ''0''\<rparr>"

definition Validate_netcap :: "sdk_math \<Rightarrow> netcap_params \<Rightarrow> unit result" where
  "Validate_netcap M p =
    (if \<not> nc_Enabled p then Inr ()
     else if WindowSeconds p \<le> 0 then Inl (Error ''netcap: window_seconds must be > 0 when enabled'')
     else if (case NewIntFromString M (CapPerWindow p) of None \<Rightarrow> True | Some v \<Rightarrow> v < 0)
     then Inl (Error ''netcap: invalid cap_per_window'')
     else Inr ())"

definition SetParams_netcap :: "netcap_store \<Rightarrow> netcap_params \<Rightarrow> netcap_store" where
  "SetParams_netcap st p = st\<lparr>nc_ParamsKey := Some (Json p)\<rparr>"

definition GetParams_netcap :: "netcap_store \<Rightarrow> netcap_params" where
  "GetParams_netcap st = read_or DefaultParams_netcap (nc_ParamsKey st)"

definition InitGenesis_netcap :: "netcap_store \<Rightarrow> netcap_params \<Rightarrow> netcap_store" where
  "InitGenesis_netcap st gs = SetParams_netcap st gs"

definition ExportGenesis_netcap :: "netcap_store \<Rightarrow> netcap_params" where
  "ExportGenesis_netcap st = GetParams_netcap st"

interpretation netcap: params_store SetParams_netcap GetParams_netcap
  by unfold_locales (simp_all add: SetParams_netcap_def GetParams_netcap_def)

definition getSpend :: "netcap_store \<Rightarrow> string \<Rightarrow> window_spend" where
  "getSpend st address = read_or \<lparr>WindowStartUnix = 0, Spent = ''0''\<rparr> (kv_get (SpendPrefix st) address)"

definition setSpend :: "netcap_store \<Rightarrow> string \<Rightarrow> window_spend \<Rightarrow> netcap_store" where
  "setSpend st address ws = st\<lparr>SpendPrefix := kv_set address (Json ws) (SpendPrefix st)\<rparr>"

fun contains :: "string list \<Rightarrow> string \<Rightarrow> bool" where
  "contains [] s = False"
| "contains (x # xs) s = (if x = s then True else contains xs s)"

subsection \<open>The cap\<close>

text \<open>\<open>amount\<close> is \<open>None\<close> for a nil \<open>math.Int\<close>; the subtraction of times is in 64 bits.\<close>

definition CheckAndRecord ::
    "sdk_math \<Rightarrow> (string \<Rightarrow> bool) \<Rightarrow> int \<Rightarrow> bool \<Rightarrow> string \<Rightarrow> string \<Rightarrow> int option \<Rightarrow> netcap_store \<Rightarrow> netcap_store result" where
  "CheckAndRecord M isModuleAccount now checkTx from to amt st =
    (let p = GetParams_netcap st in
     case amt of
       None \<Rightarrow> Inr st
     | Some amount \<Rightarrow>
         if \<not> nc_Enabled p \<or> \<not> 0 < amount then Inr st
         else if \<not> contains (RestrictedAddresses p) from then Inr st
         else if contains (Whitelist p) to \<or> isModuleAccount to then Inr st
         else (case NewIntFromString M (CapPerWindow p) of
           None \<Rightarrow> Inr st
         | Some capAmt \<Rightarrow>
             let ws = getSpend st from;
                 ws1 = (if WindowStartUnix ws = 0 \<or> wrap64 (now - WindowStartUnix ws) \<ge> WindowSeconds p
                        then ws\<lparr>WindowStartUnix := now, Spent := ''0''\<rparr> else ws);
                 spent = (case NewIntFromString M (Spent ws1) of None \<Rightarrow> 0 | Some v \<Rightarrow> v);
                 newSpent = spent + amount in
             if newSpent > capAmt then Inl (Error ''net-seller cap exceeded'')
             else if checkTx then Inr st
             else Inr (setSpend st from (ws1\<lparr>Spent := IntString M newSpent\<rparr>))))"

definition SendRestrictionFn ::
    "sdk_math \<Rightarrow> (string \<Rightarrow> bool) \<Rightarrow> int \<Rightarrow> bool \<Rightarrow> string \<Rightarrow> string \<Rightarrow> coins \<Rightarrow> netcap_store \<Rightarrow> (string \<times> netcap_store) result" where
  "SendRestrictionFn M isModuleAccount now checkTx from to amt st =
    and_then (CheckAndRecord M isModuleAccount now checkTx from to (Some (AmountOf amt ''aLIMO'')) st) (\<lambda>st'. Inr (to, st'))"

text \<open>
  The decorator's view of a message: an Ethereum transaction with its sender, target and value,
  or a message it skips. Without a checker it does nothing.
\<close>

datatype netcap_msg = EthTransfer string "string option" "int option" | NotEth

fun AnteHandle_netcap ::
    "sdk_math \<Rightarrow> (string \<Rightarrow> bool) \<Rightarrow> int \<Rightarrow> bool \<Rightarrow> netcap_msg list \<Rightarrow> netcap_store \<Rightarrow> netcap_store result" where
  "AnteHandle_netcap M isMod now checkTx [] st = Inr st"
| "AnteHandle_netcap M isMod now checkTx (NotEth # msgs) st = AnteHandle_netcap M isMod now checkTx msgs st"
| "AnteHandle_netcap M isMod now checkTx (EthTransfer from to val # msgs) st =
     (case to of
        None \<Rightarrow> AnteHandle_netcap M isMod now checkTx msgs st
      | Some toAcc \<Rightarrow>
          (case val of
             None \<Rightarrow> AnteHandle_netcap M isMod now checkTx msgs st
           | Some v \<Rightarrow>
               if v \<le> 0 then AnteHandle_netcap M isMod now checkTx msgs st
               else and_then (CheckAndRecord M isMod now checkTx from toAcc (Some v) st)
                 (AnteHandle_netcap M isMod now checkTx msgs)))"

subsection \<open>Runs\<close>

text \<open>What a send counts against the cap of its sender.\<close>

definition counts :: "(string \<Rightarrow> bool) \<Rightarrow> netcap_params \<Rightarrow> string \<Rightarrow> string \<Rightarrow> int \<Rightarrow> bool" where
  "counts isMod p from to amount \<longleftrightarrow>
    nc_Enabled p \<and> 0 < amount \<and> contains (RestrictedAddresses p) from \<and> \<not> contains (Whitelist p) to \<and> \<not> isMod to"

text \<open>
  Sends delivered one after another at block times that do not go back, with those of \<open>seller\<close>
  that count, as time and amount. A refused send is no step.
\<close>

inductive netcap_run ::
    "sdk_math \<Rightarrow> (string \<Rightarrow> bool) \<Rightarrow> string \<Rightarrow> netcap_store \<Rightarrow> int \<Rightarrow> (int \<times> int) list \<Rightarrow> netcap_store \<Rightarrow> bool"
  for M isMod seller st0 where
  start: "0 < t \<Longrightarrow> netcap_run M isMod seller st0 t [] st0"
| deliver: "netcap_run M isMod seller st0 t log st \<Longrightarrow> t \<le> t' \<Longrightarrow> t' < 2 ^ 62 \<Longrightarrow>
    CheckAndRecord M isMod t' False from to (Some amount) st = Inr st' \<Longrightarrow>
    netcap_run M isMod seller st0 t'
      (if from = seller \<and> counts isMod (GetParams_netcap st) from to amount then log @ [(t', amount)] else log) st'"
| check: "netcap_run M isMod seller st0 t log st \<Longrightarrow> t \<le> t' \<Longrightarrow> t' < 2 ^ 62 \<Longrightarrow>
    CheckAndRecord M isMod t' True from to amt st = Inr st' \<Longrightarrow>
    netcap_run M isMod seller st0 t' log st'"

definition out_between :: "int \<Rightarrow> int \<Rightarrow> (int \<times> int) list \<Rightarrow> int" where
  "out_between lo hi log = sum_list (map snd (filter (\<lambda>(t, _). lo \<le> t \<and> t < hi) log))"

subsection \<open>Windows\<close>

text \<open>
  The counted sends of one seller fall into windows, newest first: each begins with a send,
  lasts less than its length, carries at most the cap, and begins no sooner than a full length
  after the one before.
\<close>

fun windows :: "int \<Rightarrow> int \<Rightarrow> (int \<times> (int \<times> int) list) list \<Rightarrow> bool" where
  "windows W c [] = True"
| "windows W c ((s, es) # ws) \<longleftrightarrow>
     (\<forall>(t, a) \<in> set es. s \<le> t \<and> t < s + W \<and> 0 < a) \<and> sum_list (map snd es) \<le> c \<and>
     (\<forall>(s', _) \<in> set ws. s' + W \<le> s) \<and> windows W c ws"

definition window_log :: "(int \<times> (int \<times> int) list) list \<Rightarrow> (int \<times> int) list" where
  "window_log ws = concat (map snd (rev ws))"

lemma out_between_append [simp]: "out_between lo hi (xs @ ys) = out_between lo hi xs + out_between lo hi ys"
  by (simp add: out_between_def)

lemma window_log_Cons [simp]: "window_log ((s, es) # ws) = window_log ws @ es"
  by (simp add: window_log_def)

lemma out_between_le:
  "(\<forall>(t, a) \<in> set es. 0 < a) \<Longrightarrow> out_between lo hi es \<le> sum_list (map snd es)"
  by (induction es) (auto simp: out_between_def)

lemma out_between_outside: "(\<forall>(t, a) \<in> set es. \<not> (lo \<le> t \<and> t < hi)) \<Longrightarrow> out_between lo hi es = 0"
  by (induction es) (auto simp: out_between_def)

lemma window_out: "windows W c ((s, es) # ws) \<Longrightarrow> out_between lo hi es \<le> c"
  using out_between_le [of es lo hi] by fastforce

lemma windows_before:
  "windows W c ws \<Longrightarrow> (\<forall>(s, _) \<in> set ws. s \<le> T - W) \<Longrightarrow> out_between T (T + W) (window_log ws) = 0"
proof (induction ws)
  case (Cons w ws)
  obtain s es where w: "w = (s, es)" by (cases w)
  have "out_between T (T + W) es = 0"
    using Cons.prems by (intro out_between_outside) (force simp: w)
  then show ?case using Cons by (simp add: w)
qed (simp add: window_log_def out_between_def)

lemma windows_until:
  assumes "windows W c ws" "\<forall>(s, _) \<in> set ws. s \<le> T" "0 \<le> c"
  shows "out_between T (T + W) (window_log ws) \<le> c"
proof (cases ws)
  case Nil
  then show ?thesis using assms by (simp add: window_log_def out_between_def)
next
  case (Cons w ws')
  obtain s es where w: "w = (s, es)" by (cases w)
  have "out_between T (T + W) es \<le> c" using assms(1) by (simp add: window_out Cons w del: windows.simps)
  moreover have "out_between T (T + W) (window_log ws') = 0"
    using assms(1,2) by (intro windows_before [of W c]) (fastforce simp: Cons w)+
  ultimately show ?thesis by (simp add: Cons w)
qed

lemma windows_any:
  "windows W c ws \<Longrightarrow> 0 \<le> c \<Longrightarrow> out_between T (T + W) (window_log ws) \<le> 2 * c"
proof (induction ws)
  case (Cons w ws)
  obtain s es where w: "w = (s, es)" by (cases w)
  have all: "\<forall>(s', _) \<in> set ws. s' + W \<le> s" and ok: "windows W c ws" using Cons.prems by (auto simp: w)
  consider "T + W \<le> s" | "T < s" "s < T + W" | "s \<le> T" by linarith
  then show ?case
  proof cases
    case 1
    then have "out_between T (T + W) es = 0"
      using Cons.prems by (intro out_between_outside) (force simp: w)
    then show ?thesis using Cons.IH [OF ok Cons.prems(2)] by (simp add: w)
  next
    case 2
    have "out_between T (T + W) (window_log ws) \<le> c"
      using all 2 by (intro windows_until [OF ok _ Cons.prems(2)]) fastforce
    moreover have "out_between T (T + W) es \<le> c"
      using Cons.prems(1) by (simp add: window_out w del: windows.simps)
    ultimately show ?thesis by (simp add: w)
  next
    case 3
    show ?thesis
    proof (cases "W \<le> 0")
      case True
      then have "out_between T (T + W) (window_log (w # ws)) = 0" by (intro out_between_outside) auto
      then show ?thesis using Cons.prems(2) by simp
    next
      case False
      have "\<forall>(s', _) \<in> set (w # ws). s' \<le> T" using all 3 False by (fastforce simp: w)
      then show ?thesis using windows_until [OF Cons.prems(1) _ Cons.prems(2)] Cons.prems(2) by force
    qed
  qed
qed (simp add: window_log_def out_between_def)

subsection \<open>The invariant\<close>

definition netcap_inv :: "sdk_math \<Rightarrow> netcap_params \<Rightarrow> int \<Rightarrow> string \<Rightarrow> int \<Rightarrow> (int \<times> int) list \<Rightarrow> netcap_store \<Rightarrow> bool" where
  "netcap_inv M p c seller t log st \<longleftrightarrow>
    GetParams_netcap st = p \<and> 0 < t \<and>
    (\<exists>ws. windows (WindowSeconds p) c ws \<and> log = window_log ws \<and>
      (case ws of [] \<Rightarrow> WindowStartUnix (getSpend st seller) = 0
       | (s, es) # _ \<Rightarrow> 0 < s \<and> s \<le> t \<and> getSpend st seller = \<lparr>WindowStartUnix = s, Spent = IntString M (sum_list (map snd es))\<rparr>))"

lemma netcap_inv_later: "netcap_inv M p c seller t log st \<Longrightarrow> t \<le> t' \<Longrightarrow> netcap_inv M p c seller t' log st"
proof -
  assume inv: "netcap_inv M p c seller t log st" and "t \<le> t'"
  then obtain ws where "windows (WindowSeconds p) c ws" "log = window_log ws"
      "case ws of [] \<Rightarrow> WindowStartUnix (getSpend st seller) = 0
       | (s, es) # _ \<Rightarrow> 0 < s \<and> s \<le> t \<and> getSpend st seller = \<lparr>WindowStartUnix = s, Spent = IntString M (sum_list (map snd es))\<rparr>"
    by (auto simp: netcap_inv_def)
  with inv \<open>t \<le> t'\<close> show ?thesis
    unfolding netcap_inv_def by (intro conjI exI [of _ ws]) (auto split: list.splits)
qed

lemma getSpend_set: "getSpend (setSpend st a w) x = (if x = a then w else getSpend st x)"
  by (simp add: getSpend_def setSpend_def)

lemma GetParams_setSpend [simp]: "GetParams_netcap (setSpend st a w) = GetParams_netcap st"
  by (simp add: GetParams_netcap_def setSpend_def)

lemma CheckAndRecord_same:
  assumes "CheckAndRecord M isMod now checkTx from to (Some amount) st = Inr st'"
    "checkTx \<or> \<not> counts isMod (GetParams_netcap st) from to amount"
  shows "st' = st"
  using assms by (auto simp: CheckAndRecord_def counts_def Let_def split: option.splits if_splits)

lemma CheckAndRecord_check: "CheckAndRecord M isMod now True from to amt st = Inr st' \<Longrightarrow> st' = st"
  by (auto simp: CheckAndRecord_def Let_def split: option.splits if_splits)

context int_codec
begin

lemma CheckAndRecord_counted:
  assumes "CheckAndRecord M isMod now False from to (Some amount) st = Inr st'"
    "counts isMod (GetParams_netcap st) from to amount"
    "NewIntFromString M (CapPerWindow (GetParams_netcap st)) = Some c"
  shows "let ws = getSpend st from;
      fresh = (WindowStartUnix ws = 0 \<or> wrap64 (now - WindowStartUnix ws) \<ge> WindowSeconds (GetParams_netcap st));
      spent = (if fresh then 0 else case NewIntFromString M (Spent ws) of None \<Rightarrow> 0 | Some v \<Rightarrow> v)
    in spent + amount \<le> c \<and>
      st' = setSpend st from \<lparr>WindowStartUnix = (if fresh then now else WindowStartUnix ws), Spent = IntString M (spent + amount)\<rparr>"
  using assms
  by (cases "getSpend st from") (auto simp: CheckAndRecord_def counts_def Let_def split: option.splits if_splits)

lemma netcap_inv_deliver:
  assumes inv: "netcap_inv M p c seller t log st" and time: "t \<le> t'" "t' < 2 ^ 62"
    and cap: "NewIntFromString M (CapPerWindow p) = Some c" and W: "0 < WindowSeconds p"
    and run: "CheckAndRecord M isMod t' False from to (Some amount) st = Inr st'"
  shows "netcap_inv M p c seller t'
    (if from = seller \<and> counts isMod (GetParams_netcap st) from to amount then log @ [(t', amount)] else log) st'"
proof (cases "counts isMod p from to amount")
  case False
  then show ?thesis
    using netcap_inv_later [OF inv time(1)] CheckAndRecord_same [OF run] inv by (simp add: netcap_inv_def)
next
  case True
  have p: "GetParams_netcap st = p" and t: "0 < t" using inv by (auto simp: netcap_inv_def)
  note R = CheckAndRecord_counted [OF run, unfolded p, OF True cap]
  obtain ws where ws: "windows (WindowSeconds p) c ws" "log = window_log ws"
      "case ws of [] \<Rightarrow> WindowStartUnix (getSpend st seller) = 0
       | (s, es) # _ \<Rightarrow> 0 < s \<and> s \<le> t \<and> getSpend st seller = \<lparr>WindowStartUnix = s, Spent = IntString M (sum_list (map snd es))\<rparr>"
    using inv by (auto simp: netcap_inv_def)
  show ?thesis
  proof (cases "from = seller")
    case False
    then have "getSpend st' seller = getSpend st seller" "GetParams_netcap st' = p"
      using R p by (auto simp: Let_def getSpend_set)
    then show ?thesis
      using ws t time False unfolding netcap_inv_def by (auto intro!: exI [of _ ws] split: list.splits)
  next
    case True': True
    have pos: "0 < amount" using True by (simp add: counts_def)
    let ?sp = "getSpend st seller"
    define fresh where "fresh = (WindowStartUnix ?sp = 0 \<or> wrap64 (t' - WindowStartUnix ?sp) \<ge> WindowSeconds p)"
    show ?thesis
    proof (cases fresh)
      case True'': True
      let ?ws = "(t', [(t', amount)]) # ws"
      have st': "amount \<le> c" "st' = setSpend st seller \<lparr>WindowStartUnix = t', Spent = IntString M amount\<rparr>"
        using R True'' True' unfolding fresh_def by (auto simp: Let_def)
      have "s' + WindowSeconds p \<le> t'" if "(s', es') \<in> set ws" for s' es'
      proof (cases ws)
        case (Cons w ws')
        obtain s es where w: "w = (s, es)" by (cases w)
        have s: "0 < s" "s \<le> t" "WindowStartUnix ?sp = s" using ws(3) by (auto simp: Cons w)
        then have "wrap64 (t' - s) = t' - s" using time t by (intro wrap64_id) auto
        then have "s + WindowSeconds p \<le> t'" using True'' s unfolding fresh_def by auto
        moreover have "s' = s \<or> s' + WindowSeconds p \<le> s" using ws(1) that by (auto simp: Cons w)
        ultimately show ?thesis using W by auto
      qed (use that in simp)
      then have "windows (WindowSeconds p) c ?ws" using ws(1) st'(1) W pos by auto
      then show ?thesis
        using True True' p ws(2) t time unfolding netcap_inv_def st'(2)
        by (intro conjI exI [of _ ?ws]) (auto simp: getSpend_set)
    next
      case False
      then obtain s es ws' where W': "ws = (s, es) # ws'"
        using ws(3) by (cases ws) (auto simp: fresh_def)
      have s: "0 < s" "s \<le> t" "?sp = \<lparr>WindowStartUnix = s, Spent = IntString M (sum_list (map snd es))\<rparr>"
        using ws(3) by (auto simp: W')
      have "wrap64 (t' - s) = t' - s" using time t s by (intro wrap64_id) auto
      then have lt: "t' < s + WindowSeconds p" using False s unfolding fresh_def by auto
      let ?sum = "sum_list (map snd es) + amount" and ?ws = "(s, es @ [(t', amount)]) # ws'"
      have st': "?sum \<le> c" "st' = setSpend st seller \<lparr>WindowStartUnix = s, Spent = IntString M ?sum\<rparr>"
        using R False True' s unfolding fresh_def by (auto simp: Let_def parse_print)
      have "windows (WindowSeconds p) c ?ws" using ws(1) st'(1) lt s time pos by (auto simp: W')
      then show ?thesis
        using True True' p ws(2) t time s unfolding netcap_inv_def st'(2)
        by (intro conjI exI [of _ ?ws]) (auto simp: getSpend_set W')
    qed
  qed
qed

lemma netcap_run_inv:
  assumes "netcap_run M isMod seller st0 t log st" "SpendPrefix st0 = []" "GetParams_netcap st0 = p"
    "NewIntFromString M (CapPerWindow p) = Some c" "0 < WindowSeconds p"
  shows "netcap_inv M p c seller t log st"
  using assms(1)
proof (induction rule: netcap_run.induct)
  case (start t)
  then show ?case
    using assms(2,3) by (auto simp: netcap_inv_def getSpend_def window_log_def intro!: exI [of _ "[]"])
next
  case (deliver t log st t' src to amount st')
  then show ?case using netcap_inv_deliver [OF deliver.IH _ _ assms(4,5)] by blast
next
  case (check t log st t' src to amt st')
  then show ?case
    using CheckAndRecord_check [OF check.hyps(4)] netcap_inv_later by simp
qed

end

subsection \<open>Properties\<close>

text \<open>
  (C8) The cap holds. In every run with validated, enabled parameters, what a restricted address
  sent out since its current window began is at most the cap, and over any stretch of time as
  long as a window it is at most twice the cap; sends that are only checked are never counted.
\<close>

theorem net_seller_capped:
  assumes "int_codec M" and "netcap_run M isMod seller st0 t log st" and "SpendPrefix st0 = []"
    and "Validate_netcap M (GetParams_netcap st0) = Inr ()" and "nc_Enabled (GetParams_netcap st0)"
    and "NewIntFromString M (CapPerWindow (GetParams_netcap st0)) = Some limit"
  shows "out_between (WindowStartUnix (getSpend st seller))
      (WindowStartUnix (getSpend st seller) + WindowSeconds (GetParams_netcap st0)) log \<le> limit \<and>
    out_between T (T + WindowSeconds (GetParams_netcap st0)) log \<le> 2 * limit"
proof -
  let ?p = "GetParams_netcap st0" and ?s = "WindowStartUnix (getSpend st seller)"
  have W: "0 < WindowSeconds ?p" and c: "0 \<le> limit"
    using assms(4-6) by (auto simp: Validate_netcap_def split: if_splits)
  have "netcap_inv M ?p limit seller t log st"
    by (rule int_codec.netcap_run_inv [OF assms(1-3) refl assms(6) W])
  then obtain ws where ws: "windows (WindowSeconds ?p) limit ws" "log = window_log ws"
      "case ws of [] \<Rightarrow> ?s = 0
       | (s, es) # _ \<Rightarrow> 0 < s \<and> s \<le> t \<and> getSpend st seller = \<lparr>WindowStartUnix = s, Spent = IntString M (sum_list (map snd es))\<rparr>"
    unfolding netcap_inv_def by blast
  have "\<forall>(s', _) \<in> set ws. s' \<le> ?s"
  proof (cases ws)
    case (Cons w ws')
    obtain s es where w: "w = (s, es)" by (cases w)
    then have "?s = s" using ws(3) Cons by simp
    then show ?thesis using ws(1) W by (fastforce simp: Cons w)
  qed simp
  from windows_until [OF ws(1) this c] windows_any [OF ws(1) c] show ?thesis
    by (simp add: ws(2))
qed

definition sample_netcap :: netcap_store where
  "sample_netcap = \<lparr>nc_ParamsKey = Some (Json \<lparr>nc_Enabled = True, RestrictedAddresses = [''team''], Whitelist = [],
     WindowSeconds = 100, CapPerWindow = ''10''\<rparr>), SpendPrefix = []\<rparr>"

lemma sample_sends:
  "CheckAndRecord decimal (\<lambda>_. False) 1 False ''team'' ''dex'' (Some 1) sample_netcap
     = Inr (setSpend sample_netcap ''team'' \<lparr>WindowStartUnix = 1, Spent = ''1''\<rparr>)"
  "CheckAndRecord decimal (\<lambda>_. False) 100 False ''team'' ''dex'' (Some 9)
     (setSpend sample_netcap ''team'' \<lparr>WindowStartUnix = 1, Spent = ''1''\<rparr>)
     = Inr (setSpend sample_netcap ''team'' \<lparr>WindowStartUnix = 1, Spent = ''10''\<rparr>)"
  "CheckAndRecord decimal (\<lambda>_. False) 101 False ''team'' ''dex'' (Some 10)
     (setSpend sample_netcap ''team'' \<lparr>WindowStartUnix = 1, Spent = ''10''\<rparr>)
     = Inr (setSpend sample_netcap ''team'' \<lparr>WindowStartUnix = 101, Spent = ''10''\<rparr>)"
  by code_simp+

lemma sample_counts:
  "counts (\<lambda>_. False) (GetParams_netcap sample_netcap) ''team'' ''dex'' a \<longleftrightarrow> 0 < a"
  by (simp add: counts_def GetParams_netcap_def sample_netcap_def)

lemma sample_netcap_run:
  "netcap_run decimal (\<lambda>_. False) ''team'' sample_netcap 101 [(1, 1), (100, 9), (101, 10)]
     (setSpend sample_netcap ''team'' \<lparr>WindowStartUnix = 101, Spent = ''10''\<rparr>)"
proof -
  note start = netcap_run.start [of 1 decimal "\<lambda>_. False" "''team''" sample_netcap]
  note one = netcap_run.deliver [OF start _ _ sample_sends(1)]
  note two = netcap_run.deliver [OF one _ _ sample_sends(2)]
  note three = netcap_run.deliver [OF two _ _ sample_sends(3)]
  show ?thesis using three by (simp add: sample_counts)
qed

theorem net_seller_capped_witness:
  "out_between 100 200 [(1, 1), (100, 9), (101, 10)] \<le> 20"
proof -
  have p: "GetParams_netcap sample_netcap = \<lparr>nc_Enabled = True, RestrictedAddresses = [''team''], Whitelist = [],
      WindowSeconds = 100, CapPerWindow = ''10''\<rparr>"
    by (simp add: sample_netcap_def GetParams_netcap_def)
  have "NewIntFromString decimal ''10'' = Some 10"
    by (simp add: decimal_def parse_int_def parse_nat_def parse_digit_def char_digit_def)
  then show ?thesis
    using net_seller_capped [OF decimal.int_codec_axioms sample_netcap_run, of 10 100]
    by (simp add: p Validate_netcap_def) (simp add: sample_netcap_def)
qed


end
