(* ===== verification/VPCap.thy ===== *)
theory VPCap
  imports KVStore
begin

text \<open>
  \<open>x/vpcap\<close>: the consensus power of each validator is capped at a share of the total power that
  remains after capping, found by a bounded iteration in 64-bit arithmetic, and the difference
  to what was sent before goes to the consensus engine. The bonded validators, as the staking
  module lists them, and the encoding of public keys are parameters.
\<close>

subsection \<open>Parameters and state\<close>

record vpcap_params =
  vp_Enabled :: bool
  PerValidatorCapBps :: nat
  FoundationCapBps :: nat
  FoundationValidators :: "string list"

record last_sent =
  PubKey :: bytes
  Power :: int

record vpcap_store =
  vp_ParamsKey :: "vpcap_params blob option"
  LastSentPrefix :: "(bytes, last_sent blob) kv"

definition DefaultParams_vpcap :: vpcap_params where
  "DefaultParams_vpcap = \<lparr>vp_Enabled = False, PerValidatorCapBps = 1000, FoundationCapBps = 1500,
     FoundationValidators = []\<rparr>"

definition Validate_vpcap :: "vpcap_params \<Rightarrow> unit result" where
  "Validate_vpcap p =
    (if vp_Enabled p \<and> (PerValidatorCapBps p = 0 \<or> PerValidatorCapBps p \<ge> 10000)
     then Inl (Error ''per_validator_cap_bps must be in (0,10000) when enabled'') else Inr ())"

definition SetParams_vpcap :: "vpcap_store \<Rightarrow> vpcap_params \<Rightarrow> vpcap_store" where
  "SetParams_vpcap st p = st\<lparr>vp_ParamsKey := Some (Json p)\<rparr>"

definition GetParams_vpcap :: "vpcap_store \<Rightarrow> vpcap_params" where
  "GetParams_vpcap st = read_or DefaultParams_vpcap (vp_ParamsKey st)"

definition InitGenesis_vpcap :: "vpcap_store \<Rightarrow> vpcap_params \<Rightarrow> vpcap_store" where
  "InitGenesis_vpcap st gs = SetParams_vpcap st gs"

definition ExportGenesis_vpcap :: "vpcap_store \<Rightarrow> vpcap_params" where
  "ExportGenesis_vpcap st = GetParams_vpcap st"

interpretation vpcap: params_store SetParams_vpcap GetParams_vpcap
  by unfold_locales (simp_all add: SetParams_vpcap_def GetParams_vpcap_def)

text \<open>The Go map of what was last sent, as its entries.\<close>

definition GetAllLastSent :: "vpcap_store \<Rightarrow> (bytes \<times> last_sent) list" where
  "GetAllLastSent st =
    List.map_filter (\<lambda>(a, v). map_option (Pair a) (read_opt (Some v))) (LastSentPrefix st)"

definition SetLastSent :: "vpcap_store \<Rightarrow> bytes \<Rightarrow> last_sent \<Rightarrow> vpcap_store" where
  "SetLastSent st consAddr ls = st\<lparr>LastSentPrefix := kv_set consAddr (Json ls) (LastSentPrefix st)\<rparr>"

definition DeleteLastSent :: "vpcap_store \<Rightarrow> bytes \<Rightarrow> vpcap_store" where
  "DeleteLastSent st consAddr = st\<lparr>LastSentPrefix := kv_del consAddr (LastSentPrefix st)\<rparr>"

subsection \<open>The iteration\<close>

definition sum64 :: "int list \<Rightarrow> int" where
  "sum64 xs = foldl (\<lambda>totalP e. wrap64 (totalP + e)) 0 xs"

definition cap_pow :: "int \<Rightarrow> int \<Rightarrow> int" where
  "cap_pow totalP bps = (let capPow = quo (wrap64 (totalP * bps)) 10000 in if capPow < 1 then 1 else capPow)"

definition capped :: "int \<Rightarrow> int \<Rightarrow> int" where
  "capped capPow r = (let nv = (if r > capPow then capPow else r) in if r > 0 \<and> nv < 1 then 1 else nv)"

text \<open>The rounds that are left; a round that changes nothing is the last.\<close>

fun cap_rounds :: "nat \<Rightarrow> int list \<Rightarrow> int \<Rightarrow> int list \<Rightarrow> int list" where
  "cap_rounds 0 raw bps effective = effective"
| "cap_rounds (Suc n) raw bps effective =
     (let totalP = sum64 effective in
      if totalP \<le> 0 then effective
      else
        let next = map (capped (cap_pow totalP bps)) raw
        in if next = effective then effective else cap_rounds n raw bps next)"

definition capPowers :: "int list \<Rightarrow> int \<Rightarrow> int list" where
  "capPowers raw bps = cap_rounds 64 raw bps raw"

subsection \<open>The update\<close>

text \<open>
  A bonded validator as the iteration over staking yields it: consensus address, public key and
  power. \<open>Marshal\<close> and \<open>Unmarshal\<close> encode public keys. The loop over the bonded set returns the
  updates, the store and what is left of the last-sent map.
\<close>

record 'k vinfo =
  consAddr :: bytes
  pubKey :: 'k
  raw :: int

fun send_bonded ::
    "('k \<Rightarrow> bytes result) \<Rightarrow> ('k vinfo \<times> int) list \<Rightarrow> (bytes \<times> last_sent) list \<Rightarrow> vpcap_store \<Rightarrow>
     (('k \<times> int) list \<times> (bytes \<times> last_sent) list \<times> vpcap_store) result" where
  "send_bonded Marshal [] prior st = Inr ([], prior, st)"
| "send_bonded Marshal ((v, pw) # vs) prior st =
     and_then (Marshal (pubKey v)) (\<lambda>pkBz.
       let upd = (case map_of prior (consAddr v) of
           Some prev \<Rightarrow> if Power prev \<noteq> pw then [(pubKey v, pw)] else []
         | None \<Rightarrow> [(pubKey v, pw)]) in
       and_then (send_bonded Marshal vs (filter (\<lambda>(a, _). a \<noteq> consAddr v) prior)
           (SetLastSent st (consAddr v) \<lparr>PubKey = pkBz, Power = pw\<rparr>))
         (\<lambda>(upds, left, st'). Inr (upd @ upds, left, st')))"

definition send_departed ::
    "(bytes \<Rightarrow> 'k result) \<Rightarrow> ('k \<times> int) list \<times> vpcap_store \<Rightarrow> bytes \<times> last_sent \<Rightarrow> ('k \<times> int) list \<times> vpcap_store" where
  "send_departed Unmarshal = (\<lambda>(upds, st) (key, ls).
    case Unmarshal (PubKey ls) of
      Inl _ \<Rightarrow> (upds, st)
    | Inr pk \<Rightarrow> (upds @ [(pk, 0)], DeleteLastSent st key))"

text \<open>
  \<open>bonded\<close> is what the iteration over staking gives, or its error; \<open>order\<close> is the order in
  which Go visits what is left of the map.
\<close>

definition ComputeCappedValidatorUpdates ::
    "('k \<Rightarrow> bytes result) \<Rightarrow> (bytes \<Rightarrow> 'k result) \<Rightarrow> ((bytes \<times> last_sent) list \<Rightarrow> (bytes \<times> last_sent) list) \<Rightarrow>
     'k vinfo list result \<Rightarrow> vpcap_store \<Rightarrow> (('k \<times> int) list option \<times> vpcap_store) result" where
  "ComputeCappedValidatorUpdates Marshal Unmarshal order bonded st =
    (let p = GetParams_vpcap st in
     if \<not> vp_Enabled p \<or> PerValidatorCapBps p = 0 \<or> PerValidatorCapBps p \<ge> 10000 then Inr (None, st)
     else
       let bps = int (PerValidatorCapBps p) in
       and_then bonded (\<lambda>vals.
         let effective = capPowers (map raw vals) bps in
         and_then (send_bonded Marshal (zip vals effective) (GetAllLastSent st) st) (\<lambda>(upds, left, st1).
           let (upds', st2) = foldl (send_departed Unmarshal) (upds, st1) (order left)
           in Inr (Some upds', st2))))"

subsection \<open>The iteration without overflow\<close>

lemma sum64_eq:
  assumes "\<forall>x\<in>set xs. 0 \<le> x" "sum_list xs < 2 ^ 63"
  shows "sum64 xs = sum_list xs"
proof -
  have "0 \<le> a \<Longrightarrow> \<forall>x\<in>set xs. 0 \<le> x \<Longrightarrow> a + sum_list xs < 2 ^ 63 \<Longrightarrow>
      foldl (\<lambda>totalP e. wrap64 (totalP + e)) a xs = a + sum_list xs" for a
  proof (induction xs arbitrary: a)
    case (Cons x xs)
    have "0 \<le> sum_list xs" using Cons.prems by (auto intro: sum_list_nonneg)
    then have "wrap64 (a + x) = a + x" using Cons.prems by (intro wrap64_id) auto
    with Cons show ?case by simp
  qed simp
  from this [of 0] assms show ?thesis by (simp add: sum64_def)
qed

text \<open>The next cap after a cap of \<open>c\<close>, as a specification.\<close>

definition next_cap :: "int list \<Rightarrow> int \<Rightarrow> int \<Rightarrow> int" where
  "next_cap rs bps c = max 1 (sum_list (map (min c) rs) * bps div 10000)"

lemma capped_min: "1 \<le> c \<Longrightarrow> capped c r = min c r"
  by (auto simp: capped_def Let_def)

lemma sum_min_mono: "c \<le> d \<Longrightarrow> sum_list (map (min c) rs) \<le> sum_list (map (min d) (rs :: int list))"
  by (rule sum_list_mono) auto

lemma sum_min_le: "sum_list (map (min c) rs) \<le> sum_list (rs :: int list)"
  using sum_list_mono [of rs "min c" "\<lambda>x. x"] by simp

lemma next_cap_mono: "c \<le> d \<Longrightarrow> 0 \<le> bps \<Longrightarrow> next_cap rs bps c \<le> next_cap rs bps d"
  unfolding next_cap_def by (intro max.mono order_refl zdiv_mono1 mult_right_mono sum_min_mono) auto

lemma next_cap_ge_1: "1 \<le> next_cap rs bps c"
  by (simp add: next_cap_def)

lemma cap_round:
  assumes pos: "\<forall>r\<in>set rs. 0 < r" and small: "sum_list rs * 10000 < 2 ^ 63" and bps: "0 < bps" "bps \<le> 10000"
    and c: "1 \<le> c" and ne: "rs \<noteq> []"
  shows "0 < sum64 (map (min c) rs)"
    "map (capped (cap_pow (sum64 (map (min c) rs)) bps)) rs = map (min (next_cap rs bps c)) rs"
    "sum64 (map (min c) rs) = sum_list (map (min c) rs)"
proof -
  let ?S = "sum_list (map (min c) rs)"
  have nn: "\<forall>x\<in>set (map (min c) rs). 0 < x" using pos c by auto
  have S0: "0 < ?S"
    using nn ne by (cases rs) (auto intro!: add_pos_nonneg sum_list_nonneg simp: less_imp_le)
  have S1: "?S * 10000 < 2 ^ 63" using sum_min_le [of c rs] small by linarith
  show eq: "sum64 (map (min c) rs) = ?S" using nn S1 S0 by (intro sum64_eq) (auto intro: less_imp_le)
  then show "0 < sum64 (map (min c) rs)" using S0 by simp
  have "?S * bps \<le> ?S * 10000" using bps S0 by (intro mult_left_mono) auto
  moreover have "0 \<le> ?S * bps" using S0 bps by simp
  ultimately have "wrap64 (?S * bps) = ?S * bps" using S1 by (intro wrap64_id) linarith+
  then have "cap_pow ?S bps = next_cap rs bps c"
    using \<open>0 \<le> ?S * bps\<close> by (auto simp: cap_pow_def next_cap_def Let_def quo_pos)
  then show "map (capped (cap_pow (sum64 (map (min c) rs)) bps)) rs = map (min (next_cap rs bps c)) rs"
    by (simp add: eq capped_min next_cap_ge_1)
qed

lemma cap_rounds_shape:
  assumes "\<forall>r\<in>set rs. 0 < r" "sum_list rs * 10000 < 2 ^ 63" "0 < bps" "bps \<le> 10000" "1 \<le> c" "rs \<noteq> []"
  shows "\<exists>e\<ge>1. cap_rounds n rs bps (map (min c) rs) = map (min e) rs \<and>
    (\<forall>d. d \<le> c \<and> d \<le> next_cap rs bps d \<longrightarrow> d \<le> e)"
  using assms(5)
proof (induction n arbitrary: c)
  case 0
  then show ?case by auto
next
  case (Suc n)
  note R = cap_round [OF assms(1-4) Suc.prems assms(6)]
  show ?case
  proof (cases "map (min (next_cap rs bps c)) rs = map (min c) rs")
    case True
    then show ?thesis using R Suc.prems by (auto simp: Let_def)
  next
    case False
    then have step: "cap_rounds (Suc n) rs bps (map (min c) rs) = cap_rounds n rs bps (map (min (next_cap rs bps c)) rs)"
      using R(1) by (simp only: cap_rounds.simps Let_def R(2) False if_False not_le [symmetric])
    obtain e where e: "1 \<le> e" "cap_rounds n rs bps (map (min (next_cap rs bps c)) rs) = map (min e) rs"
        "\<forall>d. d \<le> next_cap rs bps c \<and> d \<le> next_cap rs bps d \<longrightarrow> d \<le> e"
      using Suc.IH [OF next_cap_ge_1, of rs bps c] by blast
    have "d \<le> e" if "d \<le> c" "d \<le> next_cap rs bps d" for d
      using e(3) that next_cap_mono [of d c bps rs] assms(3) by force
    then show ?thesis using e step by auto
  qed
qed

lemma capPowers_shape:
  assumes "\<forall>r\<in>set rs. 0 < r" "sum_list rs * 10000 < 2 ^ 63" "0 < bps" "bps \<le> 10000"
  shows "\<exists>c\<ge>1. capPowers rs bps = map (min c) rs \<and>
    (\<forall>d. d * 10000 \<le> sum_list (map (min d) rs) * bps \<longrightarrow> (\<forall>r\<in>set rs. min d r \<le> min c r))"
proof (cases "rs = []")
  case True
  then have "capPowers rs bps = []" by (simp add: capPowers_def eval_nat_numeral sum64_def Let_def)
  then show ?thesis using True by auto
next
  case False
  let ?c = "sum_list rs"
  have le: "r \<le> ?c" if "r \<in> set rs" for r
    using that assms(1) by (intro sum_list_member_le) auto
  have pos: "1 \<le> ?c" using False assms(1) le by (cases rs) force+
  have start: "map (min ?c) rs = rs" using le by (intro map_idI) (simp add: min_absorb2)
  obtain e where e: "1 \<le> e" "cap_rounds 64 rs bps (map (min ?c) rs) = map (min e) rs"
      "\<forall>d. d \<le> ?c \<and> d \<le> next_cap rs bps d \<longrightarrow> d \<le> e"
    using cap_rounds_shape [OF assms pos False] by blast
  have "min d r \<le> min e r" if d: "d * 10000 \<le> sum_list (map (min d) rs) * bps" and r: "r \<in> set rs" for d r
  proof (cases "d \<le> ?c")
    case True
    have "d \<le> sum_list (map (min d) rs) * bps div 10000" using d by linarith
    then have "d \<le> next_cap rs bps d" by (simp add: next_cap_def)
    then have "d \<le> e" using e(3) True by blast
    then show ?thesis by simp
  next
    case False
    have "sum_list (map (min d) rs) * bps \<le> ?c * 10000"
      using sum_min_le [of d rs] assms(3,4) pos by (intro mult_mono) auto
    then show ?thesis using d False by linarith
  qed
  then show ?thesis using e start by (auto simp: capPowers_def)
qed

subsection \<open>What the consensus engine ends up with\<close>

text \<open>The engine's powers after a list of updates; power zero removes a validator.\<close>

definition apply_updates :: "('k \<Rightarrow> int option) \<Rightarrow> ('k \<times> int) list \<Rightarrow> 'k \<Rightarrow> int option" where
  "apply_updates view upds = foldl (\<lambda>v (pk, pw). if pw = 0 then v(pk := None) else v(pk \<mapsto> pw)) view upds"

lemma apply_updates_append: "apply_updates view (xs @ ys) = apply_updates (apply_updates view xs) ys"
  by (simp add: apply_updates_def)

lemma apply_updates_Nil [simp]: "apply_updates view [] = view"
  by (simp add: apply_updates_def)

text \<open>
  The store remembers what the engine has: every record is readable and belongs to the address
  of its key, and the engine's powers are exactly those of the records.
\<close>

definition in_step :: "(bytes \<Rightarrow> 'k result) \<Rightarrow> ('k \<Rightarrow> bytes) \<Rightarrow> vpcap_store \<Rightarrow> ('k \<Rightarrow> int option) \<Rightarrow> bool" where
  "in_step Unmarshal addr_of st view \<longleftrightarrow>
    kv_ok (LastSentPrefix st) \<and>
    (\<forall>a v. kv_get (LastSentPrefix st) a = Some v \<longrightarrow>
      (\<exists>ls pk. v = Json ls \<and> Unmarshal (PubKey ls) = Inr pk \<and> addr_of pk = a)) \<and>
    (\<forall>pk pw. view pk = Some pw \<longleftrightarrow>
      (\<exists>ls. kv_get (LastSentPrefix st) (addr_of pk) = Some (Json ls) \<and> Unmarshal (PubKey ls) = Inr pk \<and> Power ls = pw))"

lemma map_of_GetAllLastSent:
  assumes "kv_ok (LastSentPrefix st)"
  shows "map_of (GetAllLastSent st) a = read_opt (kv_get (LastSentPrefix st) a)"
    "distinct (map fst (GetAllLastSent st))"
proof -
  let ?f = "\<lambda>(a, v). map_option (Pair a) (read_opt (Some v))"
  have "kv_ok s \<Longrightarrow> map_of (List.map_filter ?f s) a = read_opt (kv_get s a) \<and>
      distinct (map fst (List.map_filter ?f s)) \<and> fst ` set (List.map_filter ?f s) \<subseteq> fst ` set s" for s :: "(bytes, last_sent blob) kv"
  proof (induction s)
    case (Cons e s)
    obtain k v where e: "e = (k, v)" by (cases e)
    have "k \<notin> fst ` set s" using Cons.prems by (auto simp: e kv_ok_Cons)
    moreover have IH: "map_of (List.map_filter ?f s) a = read_opt (kv_get s a)"
        "distinct (map fst (List.map_filter ?f s))" "fst ` set (List.map_filter ?f s) \<subseteq> fst ` set s"
      using Cons by (auto simp: e kv_ok_Cons)
    moreover have "kv_get s k = None" using \<open>k \<notin> fst ` set s\<close> by (simp add: kv_get_None_iff)
    ultimately show ?case
      by (cases v) (auto simp: e map_filter_simps)
  qed (simp add: map_filter_simps)
  from this [OF assms] show "map_of (GetAllLastSent st) a = read_opt (kv_get (LastSentPrefix st) a)"
    "distinct (map fst (GetAllLastSent st))"
    by (simp_all add: GetAllLastSent_def)
qed

lemma send_bonded_effect:
  assumes "send_bonded Marshal vps prior st = Inr (upds, left, st')"
    and "distinct (map (consAddr \<circ> fst) vps)" "distinct (map (pubKey \<circ> fst) vps)" "\<forall>(v, pw) \<in> set vps. 0 < pw"
    and "\<forall>v pw prev. (v, pw) \<in> set vps \<longrightarrow> map_of prior (consAddr v) = Some prev \<longrightarrow> view (pubKey v) = Some (Power prev)"
  shows "left = filter (\<lambda>(a, _). a \<notin> (consAddr \<circ> fst) ` set vps) prior \<and>
    (kv_ok (LastSentPrefix st) \<longrightarrow> kv_ok (LastSentPrefix st')) \<and> GetParams_vpcap st' = GetParams_vpcap st \<and>
    (\<forall>v pw. (v, pw) \<in> set vps \<longrightarrow> (\<exists>bz. Marshal (pubKey v) = Inr bz \<and>
      kv_get (LastSentPrefix st') (consAddr v) = Some (Json \<lparr>PubKey = bz, Power = pw\<rparr>))) \<and>
    (\<forall>a. a \<notin> (consAddr \<circ> fst) ` set vps \<longrightarrow> kv_get (LastSentPrefix st') a = kv_get (LastSentPrefix st) a) \<and>
    (\<forall>v pw. (v, pw) \<in> set vps \<longrightarrow> apply_updates view upds (pubKey v) = Some pw) \<and>
    (\<forall>pk. pk \<notin> (pubKey \<circ> fst) ` set vps \<longrightarrow> apply_updates view upds pk = view pk)"
  using assms
proof (induction vps arbitrary: prior st upds view)
  case Nil
  then show ?case by auto
next
  case (Cons e vps)
  obtain v pw where e: "e = (v, pw)" by (cases e)
  let ?upd = "case map_of prior (consAddr v) of
      Some prev \<Rightarrow> if Power prev \<noteq> pw then [(pubKey v, pw)] else [] | None \<Rightarrow> [(pubKey v, pw)]"
  let ?prior = "filter (\<lambda>(a, _). a \<noteq> consAddr v) prior"
  obtain bz upds' where bz: "Marshal (pubKey v) = Inr bz"
      and rest: "send_bonded Marshal vps ?prior (SetLastSent st (consAddr v) \<lparr>PubKey = bz, Power = pw\<rparr>) = Inr (upds', left, st')"
      and upds: "upds = ?upd @ upds'"
    using Cons.prems(1) by (auto simp: e and_then_Inr Let_def)
  let ?st1 = "SetLastSent st (consAddr v) \<lparr>PubKey = bz, Power = pw\<rparr>"
  define view1 where "view1 = apply_updates view ?upd"
  have view1: "view1 (pubKey v) = Some pw" "pk \<noteq> pubKey v \<Longrightarrow> view1 pk = view pk" for pk
    using Cons.prems(4) Cons.prems(5) [rule_format, of v pw]
    by (auto simp: view1_def e apply_updates_def split: option.splits)
  have keys: "map_of ?prior a = (if a = consAddr v then None else map_of prior a)" for a
    by (induction prior) auto
  have IH: "left = filter (\<lambda>(a, _). a \<notin> (consAddr \<circ> fst) ` set vps) ?prior \<and>
    (kv_ok (LastSentPrefix ?st1) \<longrightarrow> kv_ok (LastSentPrefix st')) \<and> GetParams_vpcap st' = GetParams_vpcap ?st1 \<and>
    (\<forall>v pw. (v, pw) \<in> set vps \<longrightarrow> (\<exists>bz. Marshal (pubKey v) = Inr bz \<and>
      kv_get (LastSentPrefix st') (consAddr v) = Some (Json \<lparr>PubKey = bz, Power = pw\<rparr>))) \<and>
    (\<forall>a. a \<notin> (consAddr \<circ> fst) ` set vps \<longrightarrow> kv_get (LastSentPrefix st') a = kv_get (LastSentPrefix ?st1) a) \<and>
    (\<forall>v pw. (v, pw) \<in> set vps \<longrightarrow> apply_updates view1 upds' (pubKey v) = Some pw) \<and>
    (\<forall>pk. pk \<notin> (pubKey \<circ> fst) ` set vps \<longrightarrow> apply_updates view1 upds' pk = view1 pk)"
  proof (rule Cons.IH [OF rest])
    show "distinct (map (consAddr \<circ> fst) vps)" "distinct (map (pubKey \<circ> fst) vps)" "\<forall>(v, pw) \<in> set vps. 0 < pw"
      using Cons.prems(2-4) by (auto simp: o_def)
    show "\<forall>v' pw' prev. (v', pw') \<in> set vps \<longrightarrow> map_of ?prior (consAddr v') = Some prev \<longrightarrow>
        view1 (pubKey v') = Some (Power prev)"
    proof (intro allI impI)
      fix v' pw' prev assume that: "(v', pw') \<in> set vps" "map_of ?prior (consAddr v') = Some prev"
      have "pubKey v' \<noteq> pubKey v" using Cons.prems(3) that(1) by (force simp: e)
      moreover have "map_of prior (consAddr v') = Some prev" using that(2) by (simp add: keys split: if_splits)
      ultimately show "view1 (pubKey v') = Some (Power prev)" using Cons.prems(5) that(1) view1(2) by auto
    qed
  qed
  have ni: "consAddr v \<notin> (consAddr \<circ> fst) ` set vps" "pubKey v \<notin> (pubKey \<circ> fst) ` set vps"
    using Cons.prems(2,3) by (auto simp: e)
  have left: "left = filter (\<lambda>(a, _). a \<notin> (consAddr \<circ> fst) ` set (e # vps)) prior"
    using IH by (auto simp: e intro!: filter_cong)
  have app: "apply_updates view upds = apply_updates view1 upds'"
    by (simp add: upds view1_def apply_updates_append)
  show ?case
    using IH left ni view1 bz unfolding app by (auto simp: e SetLastSent_def GetParams_vpcap_def)
qed

lemma send_departed_effect:
  assumes "\<forall>(a, ls) \<in> set ds. \<exists>pk. Unmarshal (PubKey ls) = Inr pk"
    and "foldl (send_departed Unmarshal) (upds, st) ds = (upds', st')"
  shows "apply_updates view upds' pk = (if \<exists>(a, ls) \<in> set ds. Unmarshal (PubKey ls) = Inr pk then None
      else apply_updates view upds pk) \<and>
    kv_get (LastSentPrefix st') a = (if a \<in> fst ` set ds then None else kv_get (LastSentPrefix st) a) \<and>
    (kv_ok (LastSentPrefix st) \<longrightarrow> kv_ok (LastSentPrefix st'))"
  using assms
proof (induction ds arbitrary: upds st)
  case (Cons d ds)
  obtain k ls where d: "d = (k, ls)" by (cases d)
  obtain pk0 where pk0: "Unmarshal (PubKey ls) = Inr pk0" using Cons.prems(1) by (auto simp: d)
  have "foldl (send_departed Unmarshal) (upds @ [(pk0, 0)], DeleteLastSent st k) ds = (upds', st')"
    using Cons.prems(2) by (simp add: d send_departed_def pk0)
  from Cons.IH [OF _ this] Cons.prems(1) show ?case
    by (auto simp: d pk0 DeleteLastSent_def apply_updates_append) (auto simp: apply_updates_def)
qed simp

lemma length_capPowers [simp]: "length (capPowers rs bps) = length rs"
proof -
  have "length eff = length rs \<Longrightarrow> length (cap_rounds n rs bps eff) = length rs" for n eff
    by (induction n arbitrary: eff) (auto simp: Let_def)
  then show ?thesis by (simp add: capPowers_def)
qed

text \<open>A round of updates: the bonded validators with the powers they are sent.\<close>

definition bonded_powers :: "('k \<Rightarrow> bytes) \<Rightarrow> ('k vinfo \<times> int) list \<Rightarrow> bool" where
  "bonded_powers addr_of vps \<longleftrightarrow> inj addr_of \<and> distinct (map (pubKey \<circ> fst) vps) \<and>
    (\<forall>(v, pw) \<in> set vps. consAddr v = addr_of (pubKey v) \<and> 0 < pw)"

definition codec :: "('k \<Rightarrow> bytes result) \<Rightarrow> (bytes \<Rightarrow> 'k result) \<Rightarrow> bool" where
  "codec Marshal Unmarshal \<longleftrightarrow> (\<forall>pk. \<exists>bz. Marshal pk = Inr bz \<and> Unmarshal bz = Inr pk)"

lemma bonded_addrs:
  assumes "bonded_powers addr_of vps"
  shows "distinct (map (consAddr \<circ> fst) vps)" "(consAddr \<circ> fst) ` set vps = (addr_of \<circ> pubKey \<circ> fst) ` set vps"
proof -
  have inj: "inj addr_of" and dist: "distinct (map (pubKey \<circ> fst) vps)"
    and ca: "\<And>e. e \<in> set vps \<Longrightarrow> (consAddr \<circ> fst) e = (addr_of \<circ> pubKey \<circ> fst) e"
    using assms by (auto simp: bonded_powers_def)
  have "map (consAddr \<circ> fst) vps = map addr_of (map (pubKey \<circ> fst) vps)"
    using ca by simp
  then show "distinct (map (consAddr \<circ> fst) vps)"
    using dist inj by (metis distinct_map inj_on_subset subset_UNIV)
  show "(consAddr \<circ> fst) ` set vps = (addr_of \<circ> pubKey \<circ> fst) ` set vps"
    using ca by (rule image_cong [OF refl])
qed

lemma in_step_prev:
  assumes "in_step Unmarshal addr_of st view" "inj addr_of"
    and "map_of (GetAllLastSent st) (addr_of pk) = Some prev"
  shows "view pk = Some (Power prev)"
proof -
  have g: "kv_get (LastSentPrefix st) (addr_of pk) = Some (Json prev)"
    using assms(1,3) map_of_GetAllLastSent(1) [of st "addr_of pk"]
    by (auto simp: in_step_def read_opt_def split: option.splits blob.splits)
  then obtain pk' where "Unmarshal (PubKey prev) = Inr pk'" "addr_of pk' = addr_of pk"
    using assms(1) by (fastforce simp: in_step_def)
  then have "Unmarshal (PubKey prev) = Inr pk" using assms(2) by (simp add: inj_eq)
  then show ?thesis using assms(1) g by (auto simp: in_step_def)
qed

lemma send_bonded_facts:
  assumes "in_step Unmarshal addr_of st view" "bonded_powers addr_of vps"
    and "send_bonded Marshal vps (GetAllLastSent st) st = Inr (upds, left, st')"
  shows "left = filter (\<lambda>(a, _). a \<notin> (consAddr \<circ> fst) ` set vps) (GetAllLastSent st)"
    and "kv_ok (LastSentPrefix st')"
    and "(v, pw) \<in> set vps \<Longrightarrow> \<exists>bz. Marshal (pubKey v) = Inr bz \<and>
      kv_get (LastSentPrefix st') (consAddr v) = Some (Json \<lparr>PubKey = bz, Power = pw\<rparr>)"
    and "a \<notin> (consAddr \<circ> fst) ` set vps \<Longrightarrow> kv_get (LastSentPrefix st') a = kv_get (LastSentPrefix st) a"
    and "(v, pw) \<in> set vps \<Longrightarrow> apply_updates view upds (pubKey v) = Some pw"
    and "pk \<notin> (pubKey \<circ> fst) ` set vps \<Longrightarrow> apply_updates view upds pk = view pk"
proof -
  have bp: "inj addr_of" "distinct (map (pubKey \<circ> fst) vps)" "\<forall>(v, pw) \<in> set vps. 0 < pw"
      "\<And>v pw. (v, pw) \<in> set vps \<Longrightarrow> consAddr v = addr_of (pubKey v)"
    using assms(2) by (auto simp: bonded_powers_def)
  have ok: "kv_ok (LastSentPrefix st)" using assms(1) by (simp add: in_step_def)
  have prev: "\<forall>v pw prev. (v, pw) \<in> set vps \<longrightarrow> map_of (GetAllLastSent st) (consAddr v) = Some prev \<longrightarrow>
      view (pubKey v) = Some (Power prev)"
    using in_step_prev [OF assms(1) bp(1)] bp(4) by metis
  note S = send_bonded_effect [where view = view, OF assms(3) bonded_addrs(1) [OF assms(2)] bp(2,3) prev]
  from S show "left = filter (\<lambda>(a, _). a \<notin> (consAddr \<circ> fst) ` set vps) (GetAllLastSent st)"
    and "(v, pw) \<in> set vps \<Longrightarrow> \<exists>bz. Marshal (pubKey v) = Inr bz \<and>
      kv_get (LastSentPrefix st') (consAddr v) = Some (Json \<lparr>PubKey = bz, Power = pw\<rparr>)"
    and "a \<notin> (consAddr \<circ> fst) ` set vps \<Longrightarrow> kv_get (LastSentPrefix st') a = kv_get (LastSentPrefix st) a"
    and "(v, pw) \<in> set vps \<Longrightarrow> apply_updates view upds (pubKey v) = Some pw"
    and "pk \<notin> (pubKey \<circ> fst) ` set vps \<Longrightarrow> apply_updates view upds pk = view pk"
    by blast+
  from S ok show "kv_ok (LastSentPrefix st')" by blast
qed

text \<open>What the loop over the bonded validators leaves: exactly the entries of the others.\<close>

lemma departed_entries:
  assumes "in_step Unmarshal addr_of st view" "bonded_powers addr_of vps"
    and "left = filter (\<lambda>(a, _). a \<notin> (consAddr \<circ> fst) ` set vps) (GetAllLastSent st)"
  shows "(a, ls) \<in> set left \<longleftrightarrow>
    a \<notin> (addr_of \<circ> pubKey \<circ> fst) ` set vps \<and> kv_get (LastSentPrefix st) a = Some (Json ls)"
    and "(a, ls) \<in> set left \<Longrightarrow> \<exists>pk. Unmarshal (PubKey ls) = Inr pk \<and> a = addr_of pk"
proof -
  have ok: "kv_ok (LastSentPrefix st)" using assms(1) by (simp add: in_step_def)
  note prior = map_of_GetAllLastSent [OF ok]
  show *: "(a, ls) \<in> set left \<longleftrightarrow>
      a \<notin> (addr_of \<circ> pubKey \<circ> fst) ` set vps \<and> kv_get (LastSentPrefix st) a = Some (Json ls)"
  proof -
    have "(a, ls) \<in> set left \<longleftrightarrow> a \<notin> (addr_of \<circ> pubKey \<circ> fst) ` set vps \<and> map_of (GetAllLastSent st) a = Some ls"
      using assms(3) prior(2) bonded_addrs(2) [OF assms(2)] by auto
    then show ?thesis by (auto simp: prior(1) read_opt_def split: option.splits blob.splits)
  qed
  show "\<exists>pk. Unmarshal (PubKey ls) = Inr pk \<and> a = addr_of pk" if "(a, ls) \<in> set left"
    using that assms(1) unfolding * by (fastforce simp: in_step_def)
qed

text \<open>Both loops together, on what the engine has and on the store.\<close>

lemma send_all_engine:
  assumes "in_step Unmarshal addr_of st view" "bonded_powers addr_of vps" "\<forall>l. set (order l) = set l"
    and "send_bonded Marshal vps (GetAllLastSent st) st = Inr (upds1, left, st1)"
    and "foldl (send_departed Unmarshal) (upds1, st1) (order left) = (upds, st')"
  shows "apply_updates view upds = map_of (map (\<lambda>(v, pw). (pubKey v, pw)) vps)"
proof
  fix pk
  have inj: "inj addr_of" using assms(2) by (simp add: bonded_powers_def)
  note S = send_bonded_facts [OF assms(1,2,4)]
  note L = departed_entries [OF assms(1,2) S(1)]
  have um: "\<forall>(a, ls) \<in> set (order left). \<exists>pk. Unmarshal (PubKey ls) = Inr pk"
    unfolding assms(3) [rule_format] using L(2) by blast
  have D: "apply_updates view upds pk = (if \<exists>(a, ls) \<in> set left. Unmarshal (PubKey ls) = Inr pk then None
      else apply_updates view upds1 pk)"
    using send_departed_effect [OF um assms(5), of view pk] unfolding assms(3) [rule_format] by blast
  show "apply_updates view upds pk = map_of (map (\<lambda>(v, pw). (pubKey v, pw)) vps) pk"
  proof (cases "pk \<in> (pubKey \<circ> fst) ` set vps")
    case True
    then obtain v pw where v: "(v, pw) \<in> set vps" "pk = pubKey v" by auto
    have "Unmarshal (PubKey ls) \<noteq> Inr pk" if "(a, ls) \<in> set left" for a ls
    proof
      assume "Unmarshal (PubKey ls) = Inr pk"
      then have "a = addr_of pk" using L(2) [OF that] by simp
      then show False using L(1) [of a ls] that v by force
    qed
    then have "\<not> (\<exists>(a, ls) \<in> set left. Unmarshal (PubKey ls) = Inr pk)" by auto
    moreover have "map_of (map (\<lambda>(v, pw). (pubKey v, pw)) vps) pk = Some pw"
      using v assms(2) by (intro map_of_is_SomeI) (auto simp: bonded_powers_def o_def case_prod_unfold intro: rev_image_eqI)
    ultimately show ?thesis using D S(5) [OF v(1)] v(2) by simp
  next
    case False
    then have none: "map_of (map (\<lambda>(v, pw). (pubKey v, pw)) vps) pk = None"
      by (force simp: map_of_eq_None_iff)
    have "\<exists>(a, ls) \<in> set left. Unmarshal (PubKey ls) = Inr pk" if some: "view pk \<noteq> None"
    proof -
      obtain ls where "kv_get (LastSentPrefix st) (addr_of pk) = Some (Json ls)" "Unmarshal (PubKey ls) = Inr pk"
        using some assms(1) by (auto simp: in_step_def)
      moreover have "addr_of pk \<notin> (addr_of \<circ> pubKey \<circ> fst) ` set vps" using False inj by (force simp: inj_eq)
      ultimately show ?thesis using L(1) [of "addr_of pk" ls] by blast
    qed
    then show ?thesis using D S(6) [OF False] none by (cases "view pk") simp_all
  qed
qed

lemma send_all_store:
  assumes "in_step Unmarshal addr_of st view" "bonded_powers addr_of vps" "\<forall>l. set (order l) = set l" "codec Marshal Unmarshal"
    and "send_bonded Marshal vps (GetAllLastSent st) st = Inr (upds1, left, st1)"
    and "foldl (send_departed Unmarshal) (upds1, st1) (order left) = (upds, st')"
  shows "kv_ok (LastSentPrefix st')"
    and "(v, pw) \<in> set vps \<Longrightarrow> \<exists>bz. kv_get (LastSentPrefix st') (addr_of (pubKey v)) = Some (Json \<lparr>PubKey = bz, Power = pw\<rparr>) \<and>
      Unmarshal bz = Inr (pubKey v)"
    and "a \<notin> (addr_of \<circ> pubKey \<circ> fst) ` set vps \<Longrightarrow> kv_get (LastSentPrefix st') a = None"
proof -
  have inj: "inj addr_of" using assms(2) by (simp add: bonded_powers_def)
  note S = send_bonded_facts [OF assms(1,2,5)]
  note L = departed_entries [OF assms(1,2) S(1)]
  have um: "\<forall>(a, ls) \<in> set (order left). \<exists>pk. Unmarshal (PubKey ls) = Inr pk"
    unfolding assms(3) [rule_format] using L(2) by blast
  have D: "kv_get (LastSentPrefix st') a = (if a \<in> fst ` set left then None else kv_get (LastSentPrefix st1) a)"
      "kv_ok (LastSentPrefix st')" for a
    using send_departed_effect [OF um assms(6)] S(2) unfolding assms(3) [rule_format] by blast+
  show "kv_ok (LastSentPrefix st')" by (rule D(2))
  show "\<exists>bz. kv_get (LastSentPrefix st') (addr_of (pubKey v)) = Some (Json \<lparr>PubKey = bz, Power = pw\<rparr>) \<and>
      Unmarshal bz = Inr (pubKey v)" if v: "(v, pw) \<in> set vps" for v pw
  proof -
    have "addr_of (pubKey v) \<notin> fst ` set left" using L(1) v by force
    moreover have "consAddr v = addr_of (pubKey v)" using assms(2) v by (auto simp: bonded_powers_def)
    ultimately show ?thesis using S(3) [OF v] D(1) assms(4) unfolding codec_def by (metis sum.inject(2))
  qed
  show "kv_get (LastSentPrefix st') a = None" if a: "a \<notin> (addr_of \<circ> pubKey \<circ> fst) ` set vps" for a
  proof (cases "kv_get (LastSentPrefix st) a")
    case None
    then show ?thesis using D(1) S(4) a bonded_addrs(2) [OF assms(2)] by auto
  next
    case (Some w)
    then obtain ls where "w = Json ls" using assms(1) by (fastforce simp: in_step_def)
    then have "a \<in> fst ` set left" using L(1) [of a ls] a Some by force
    then show ?thesis using D(1) by simp
  qed
qed

lemma in_step_of_store:
  assumes "bonded_powers addr_of vps" "kv_ok (LastSentPrefix st')"
    and "\<And>v pw. (v, pw) \<in> set vps \<Longrightarrow> \<exists>bz. kv_get (LastSentPrefix st') (addr_of (pubKey v)) = Some (Json \<lparr>PubKey = bz, Power = pw\<rparr>) \<and>
      Unmarshal bz = Inr (pubKey v)"
    and "\<And>a. a \<notin> (addr_of \<circ> pubKey \<circ> fst) ` set vps \<Longrightarrow> kv_get (LastSentPrefix st') a = None"
  shows "in_step Unmarshal addr_of st' (map_of (map (\<lambda>(v, pw). (pubKey v, pw)) vps))"
proof -
  have inj: "inj addr_of" and dist: "distinct (map (pubKey \<circ> fst) vps)"
    using assms(1) by (auto simp: bonded_powers_def)
  have mo: "map_of (map (\<lambda>(v, pw). (pubKey v, pw)) vps) pk = Some pw \<longleftrightarrow> (\<exists>v. (v, pw) \<in> set vps \<and> pk = pubKey v)" for pk pw
    using dist by (subst map_of_eq_Some_iff) (force simp: o_def case_prod_unfold)+
  have dom: "\<exists>v pw bz. (v, pw) \<in> set vps \<and> a = addr_of (pubKey v) \<and> w = Json \<lparr>PubKey = bz, Power = pw\<rparr> \<and>
      Unmarshal bz = Inr (pubKey v)" if "kv_get (LastSentPrefix st') a = Some w" for a w
  proof -
    have "a \<in> (addr_of \<circ> pubKey \<circ> fst) ` set vps" using assms(4) that by force
    then obtain v pw where "(v, pw) \<in> set vps" "a = addr_of (pubKey v)" by auto
    then show ?thesis using assms(3) that by fastforce
  qed
  show ?thesis
    unfolding in_step_def mo
  proof (intro conjI allI impI iffI)
    show "kv_ok (LastSentPrefix st')" by (rule assms(2))
    show "\<exists>ls pk. w = Json ls \<and> Unmarshal (PubKey ls) = Inr pk \<and> addr_of pk = a"
      if "kv_get (LastSentPrefix st') a = Some w" for a w using dom [OF that] by auto
    show "\<exists>ls. kv_get (LastSentPrefix st') (addr_of pk) = Some (Json ls) \<and> Unmarshal (PubKey ls) = Inr pk \<and> Power ls = pw"
      if "\<exists>v. (v, pw) \<in> set vps \<and> pk = pubKey v" for pk pw
      using that assms(3) by fastforce
    show "\<exists>v. (v, pw) \<in> set vps \<and> pk = pubKey v"
      if "\<exists>ls. kv_get (LastSentPrefix st') (addr_of pk) = Some (Json ls) \<and> Unmarshal (PubKey ls) = Inr pk \<and> Power ls = pw" for pk pw
      using that dom inj by (fastforce simp: inj_eq)
  qed
qed

subsection \<open>Properties\<close>



text \<open>
  (C11) The updates bring the consensus engine to the capped set. If the store remembers what the
  engine has, then after the engine applies the updates every bonded validator has exactly its
  capped power and nobody else has any, whatever order Go visits the departed validators in;
  and the store again remembers what the engine has.
\<close>

theorem updates_reach_capped_set:
  assumes "in_step Unmarshal addr_of st view" and "inj addr_of"
    and "\<forall>pk. \<exists>bz. Marshal pk = Inr bz \<and> Unmarshal bz = Inr pk"
    and "\<forall>l. set (order l) = set l"
    and "\<forall>v\<in>set vals. consAddr v = addr_of (pubKey v) \<and> 0 < raw v" and "distinct (map pubKey vals)"
    and "sum_list (map raw vals) * 10000 < 2 ^ 63"
    and "ComputeCappedValidatorUpdates Marshal Unmarshal order (Inr vals) st = Inr (Some upds, st')"
  shows "apply_updates view upds =
      map_of (zip (map pubKey vals) (capPowers (map raw vals) (int (PerValidatorCapBps (GetParams_vpcap st))))) \<and>
    in_step Unmarshal addr_of st' (apply_updates view upds)"
proof -
  let ?bps = "int (PerValidatorCapBps (GetParams_vpcap st))"
  let ?eff = "capPowers (map raw vals) ?bps"
  let ?vps = "zip vals ?eff"
  have bps: "0 < ?bps" "?bps < 10000" and en: "vp_Enabled (GetParams_vpcap st)"
    using assms(8) by (auto simp: ComputeCappedValidatorUpdates_def Let_def split: if_splits)
  obtain upds1 left st1 where sent: "send_bonded Marshal ?vps (GetAllLastSent st) st = Inr (upds1, left, st1)"
      and dep: "foldl (send_departed Unmarshal) (upds1, st1) (order left) = (upds, st')"
    using assms(8) bps
    by (auto simp: ComputeCappedValidatorUpdates_def Let_def and_then_Inr en case_prod_unfold prod_eq_iff split: if_splits)
  obtain c where "1 \<le> c" "?eff = map (min c) (map raw vals)"
    using capPowers_shape [of "map raw vals" ?bps] assms(5,7) bps by auto
  then have pos: "\<forall>e\<in>set ?eff. 0 < e" using assms(5) by auto
  have pks: "map (pubKey \<circ> fst) ?vps = map pubKey vals" by (simp flip: map_map)
  have vps: "bonded_powers addr_of ?vps"
    using assms(2,5,6) pos unfolding bonded_powers_def pks by (auto dest: set_zip_leftD set_zip_rightD)
  have eng: "apply_updates view upds = map_of (map (\<lambda>(v, pw). (pubKey v, pw)) ?vps)"
    by (rule send_all_engine [OF assms(1) vps assms(4) sent dep])
  have "codec Marshal Unmarshal" using assms(3) by (simp add: codec_def)
  then have "in_step Unmarshal addr_of st' (apply_updates view upds)"
    unfolding eng using send_all_store [OF assms(1) vps assms(4) _ sent dep] by (intro in_step_of_store [OF vps]) blast+
  then show ?thesis using eng by (simp add: zip_map1)
qed

definition sample_vals :: "bytes vinfo list" where
  "sample_vals = [\<lparr>consAddr = [1], pubKey = [1], raw = 5\<rparr>, \<lparr>consAddr = [2], pubKey = [2], raw = 5\<rparr>]"

definition sample_vpcap :: vpcap_store where
  "sample_vpcap = \<lparr>vp_ParamsKey = Some (Json (DefaultParams_vpcap\<lparr>vp_Enabled := True, PerValidatorCapBps := 6000\<rparr>)),
     LastSentPrefix = [([3], Json \<lparr>PubKey = [3], Power = 7\<rparr>)]\<rparr>"

theorem updates_reach_capped_set_witness:
  "\<exists>upds st'. ComputeCappedValidatorUpdates Inr Inr (\<lambda>l. l) (Inr sample_vals) sample_vpcap = Inr (Some upds, st') \<and>
    apply_updates [[3] \<mapsto> 7] upds = [[1] \<mapsto> 5, [2] \<mapsto> 5]"
proof -
  have "case ComputeCappedValidatorUpdates Inr Inr (\<lambda>l. l) (Inr sample_vals) sample_vpcap of
      Inr (Some _, _) \<Rightarrow> True | _ \<Rightarrow> False"
    by code_simp
  then obtain upds st' where run: "ComputeCappedValidatorUpdates Inr Inr (\<lambda>l. l) (Inr sample_vals) sample_vpcap = Inr (Some upds, st')"
    by (auto split: sum.splits option.splits prod.splits)
  have "in_step Inr (\<lambda>pk. pk) sample_vpcap [[3] \<mapsto> 7]"
    by (auto simp: in_step_def sample_vpcap_def kv_ok_Cons split: if_splits)
  moreover have "capPowers [5, 5] 6000 = [5, 5]" by code_simp
  ultimately show ?thesis
    using updates_reach_capped_set [OF _ _ _ _ _ _ _ run, of "\<lambda>pk. pk" "[[3] \<mapsto> 7]"] run
    by (auto simp: sample_vals_def sample_vpcap_def GetParams_vpcap_def fun_eq_iff)
qed


end
