(* ===== verification/ValGrant.thy ===== *)
theory ValGrant
  imports KVStore Sdk
begin

text \<open>
  \<open>x/valgrant\<close>: locked grants for validator candidates, paid out of a reserve pool, and their
  clawback. A clawback takes back what is still in the account at once and what is bonded when
  it has finished unbonding. The state of the other modules (accounts, balances, staking) is one
  abstract type, on which the auth, bank and staking keepers act; they are parameters.
\<close>

subsection \<open>Accounts and staking, as the module sees them\<close>

record base_account =
  Address :: addr
  AccPubKey :: "string option"
  AccountNumber :: nat
  Sequence :: nat

datatype account = BaseAccount base_account | PermanentLockedAccount base_account coins | OtherAccount base_account

record ('b, 'd) chain =
  StringToBytes :: "string \<Rightarrow> addr result"
  GetAccount :: "'b \<Rightarrow> addr \<Rightarrow> account option"
  SetAccount :: "'b \<Rightarrow> addr \<Rightarrow> account \<Rightarrow> 'b"
  NewAccount :: "'b \<Rightarrow> base_account \<Rightarrow> base_account \<times> 'b"
  NewPermanentLockedAccount :: "base_account \<Rightarrow> coins \<Rightarrow> account result"
  BlockedAddr :: "addr \<Rightarrow> bool"
  CoinsSort :: "coins \<Rightarrow> coins"
  CoinsIsValid :: "coins \<Rightarrow> bool"
  CoinsIsAllPositive :: "coins \<Rightarrow> bool"
  CoinsIsZero :: "coins \<Rightarrow> bool"
  BondDenom :: "'b \<Rightarrow> denom result"
  ValStringToBytes :: "string \<Rightarrow> addr result"
  GetDelegatorDelegations :: "'b \<Rightarrow> addr \<Rightarrow> nat \<Rightarrow> (string \<times> 'd) list result"
  Undelegate :: "'b \<Rightarrow> addr \<Rightarrow> addr \<Rightarrow> 'd \<Rightarrow> ('b \<times> int \<times> int) result"
  GetBondedValidatorsByPower :: "'b \<Rightarrow> (string \<times> int) list result"

subsection \<open>State\<close>

record grant =
  Grantee :: string
  LockedAmount :: string
  GasAllowance :: string
  ValidatorOp :: string
  IssuedHeight :: nat
  IssuedTime :: int
  Status :: string

record pending_entry =
  pe_Validator :: string
  pe_Amount :: string
  CompletionUnix :: int

record pending_clawback =
  pc_Grantee :: string
  Entries :: "pending_entry list"
  SweepAmount :: string
  InitiatedAt :: int

record valgrant_params =
  Admin_vg :: string
  FoundationValidators_vg :: "string list"

record kpi_snapshot =
  kpi_Height :: int
  kpi_Unix :: int
  ActiveValidators :: nat
  NakamotoCoefficient :: nat
  FoundationVPBps :: int
  TopValidatorVPBps :: int
  TotalPower :: int

record valgrant_genesis =
  vgg_Params :: valgrant_params
  Grants :: "grant list"

record valgrant_store =
  vg_ParamsKey :: "valgrant_params blob option"
  GrantsPrefix :: "(string, grant blob) kv"
  PendingClawbackPref :: "(string, pending_clawback blob) kv"
  KPISnapshotKey :: "kpi_snapshot blob option"

definition DefaultParams_valgrant :: valgrant_params where
  "DefaultParams_valgrant = \<lparr>Admin_vg = '''', FoundationValidators_vg = []\<rparr>"

definition Validate_valgrant :: "sdk_math \<Rightarrow> valgrant_genesis \<Rightarrow> unit result" where
  "Validate_valgrant M gs = foldl (\<lambda>r g. and_then r (\<lambda>_.
      if NewIntFromString M (LockedAmount g) = None then Inl (Error ''invalid locked_amount'')
      else if NewIntFromString M (GasAllowance g) = None then Inl (Error ''invalid gas_allowance'')
      else if Status g \<noteq> ''active'' \<and> Status g \<noteq> ''revoked'' then Inl (Error ''invalid status'')
      else Inr ())) (Inr ()) (Grants gs)"

definition SetParams_valgrant :: "valgrant_store \<Rightarrow> valgrant_params \<Rightarrow> valgrant_store" where
  "SetParams_valgrant st p = st\<lparr>vg_ParamsKey := Some (Json p)\<rparr>"

definition GetParams_valgrant :: "valgrant_store \<Rightarrow> valgrant_params" where
  "GetParams_valgrant st = read_or DefaultParams_valgrant (vg_ParamsKey st)"

interpretation valgrant: params_store SetParams_valgrant GetParams_valgrant
  by unfold_locales (simp_all add: SetParams_valgrant_def GetParams_valgrant_def)

definition SetKPISnapshot :: "valgrant_store \<Rightarrow> kpi_snapshot \<Rightarrow> valgrant_store" where
  "SetKPISnapshot st s = st\<lparr>KPISnapshotKey := Some (Json s)\<rparr>"

definition GetKPISnapshot :: "valgrant_store \<Rightarrow> kpi_snapshot option" where
  "GetKPISnapshot st = read_opt (KPISnapshotKey st)"

definition SetGrant :: "valgrant_store \<Rightarrow> grant \<Rightarrow> valgrant_store" where
  "SetGrant st g = st\<lparr>GrantsPrefix := kv_set (Grantee g) (Json g) (GrantsPrefix st)\<rparr>"

definition DeleteGrant :: "valgrant_store \<Rightarrow> string \<Rightarrow> valgrant_store" where
  "DeleteGrant st grantee = st\<lparr>GrantsPrefix := kv_del grantee (GrantsPrefix st)\<rparr>"

definition GetGrant :: "valgrant_store \<Rightarrow> string \<Rightarrow> grant option" where
  "GetGrant st grantee = read_opt (kv_get (GrantsPrefix st) grantee)"

definition IterateGrants :: "valgrant_store \<Rightarrow> grant list" where
  "IterateGrants st = List.map_filter (\<lambda>(_, v). read_opt (Some v)) (GrantsPrefix st)"

definition SetPendingClawback :: "valgrant_store \<Rightarrow> pending_clawback \<Rightarrow> valgrant_store" where
  "SetPendingClawback st pc =
    st\<lparr>PendingClawbackPref := kv_set (pc_Grantee pc) (Json pc) (PendingClawbackPref st)\<rparr>"

definition DeletePendingClawback :: "valgrant_store \<Rightarrow> string \<Rightarrow> valgrant_store" where
  "DeletePendingClawback st grantee =
    st\<lparr>PendingClawbackPref := kv_del grantee (PendingClawbackPref st)\<rparr>"


definition InitGenesis_valgrant :: "valgrant_store \<Rightarrow> valgrant_genesis \<Rightarrow> valgrant_store" where
  "InitGenesis_valgrant st gs = foldl SetGrant (SetParams_valgrant st (vgg_Params gs)) (Grants gs)"

definition ExportGenesis_valgrant :: "valgrant_store \<Rightarrow> valgrant_genesis" where
  "ExportGenesis_valgrant st = \<lparr>vgg_Params = GetParams_valgrant st, Grants = IterateGrants st\<rparr>"

subsection \<open>Issuing a grant\<close>


subsection \<open>Clawback\<close>





subsection \<open>The deferred sweep\<close>




subsection \<open>Decentralisation metrics\<close>

fun nakamoto_from :: "int list \<Rightarrow> int \<Rightarrow> int \<Rightarrow> nat \<Rightarrow> nat" where
  "nakamoto_from [] totalP cum n = n"
| "nakamoto_from (p # ps) totalP cum n =
     (let cum' = wrap64 (cum + p) in
      if wrap64 (cum' * 3) > totalP then n + 1 else nakamoto_from ps totalP cum' (n + 1))"

definition computeKPIs :: "int list \<Rightarrow> bool list \<Rightarrow> nat \<times> nat \<times> int \<times> int \<times> int" where
  "computeKPIs powersDesc isFoundation =
    (let active = length powersDesc;
       totalP = foldl (\<lambda>s p. wrap64 (s + p)) 0 powersDesc
     in if totalP \<le> 0 then (active, 0, 0, 0, 0)
        else
          let nakamoto = nakamoto_from powersDesc totalP 0 0;
            fpow = foldl (\<lambda>s (i, p). if i < length isFoundation \<and> isFoundation ! i then wrap64 (s + p) else s)
              0 (enumerate 0 powersDesc);
            foundationBps = quo (wrap64 (fpow * 10000)) totalP;
            topBps = quo (wrap64 (powersDesc ! 0 * 10000)) totalP
          in (active, nakamoto, foundationBps, topBps, totalP))"




subsection \<open>Burning the pool\<close>

definition BurnPool ::
    "('b, 'd) chain \<Rightarrow> 'b bank \<Rightarrow> sdk_math \<Rightarrow> string \<Rightarrow> 'b \<Rightarrow> ('b \<times> int) result" where
  "BurnPool X bk M amountStr b =
    and_then (BondDenom X b) (\<lambda>bondDenom.
      if \<not> is_macc ''valgrant'' then Inl (Error ''valgrant module account not found'')
      else let poolBal = bk_balance bk b (bk_modaddr bk ''valgrant'') bondDenom in
      and_then
        (if amountStr = '''' \<or> amountStr = ''0'' then Inr poolBal
         else case NewIntFromString M amountStr of None \<Rightarrow> Inl (Error ''invalid burn amount'')
           | Some amt \<Rightarrow> if \<not> 0 < amt then Inl (Error ''burn amount must be positive'') else Inr amt)
        (\<lambda>burnAmt.
          if \<not> 0 < burnAmt then Inl (Error ''nothing to burn: valgrant pool balance is zero'')
          else if burnAmt > poolBal then Inl (Error ''burn amount exceeds valgrant pool balance'')
          else and_then (BurnCoins bk b ''valgrant'' (NewCoins bondDenom burnAmt)) (\<lambda>b'. Inr (b', burnAmt))))"

subsection \<open>Messages\<close>








subsection \<open>The metrics are exact\<close>

lemma sum_top_le:
  fixes ps :: "int list"
  assumes "sorted_wrt (\<ge>) ps" "finite I" "I \<subseteq> {..<length ps}"
  shows "(\<Sum>i\<in>I. ps ! i) \<le> sum_list (take (card I) ps)"
  using assms(2,3)
proof (induction "card I" arbitrary: I)
  case 0
  then show ?case by simp
next
  case (Suc k)
  define m where "m = Max I"
  have m: "m \<in> I" "\<forall>i\<in>I. i \<le> m" using Suc.hyps(2) Suc.prems(1) by (auto simp: m_def card_gt_0_iff intro!: Max_in)
  have k: "card (I - {m}) = k" using Suc.hyps(2) Suc.prems(1) m(1) by simp
  have "I - {m} \<subseteq> {..<m}" using m(2) by (auto simp: order.strict_iff_order)
  then have km: "k \<le> m" using card_mono [of "{..<m}" "I - {m}"] k by simp
  have ml: "m < length ps" using m(1) Suc.prems(2) by auto
  have "ps ! m \<le> ps ! k"
    using sorted_wrt_nth_less [OF assms(1), of k m] km ml by (cases "k = m") auto
  moreover have "(\<Sum>i\<in>I - {m}. ps ! i) \<le> sum_list (take k ps)"
    using Suc.hyps(1) [of "I - {m}"] Suc.prems k by auto
  moreover have "(\<Sum>i\<in>I. ps ! i) = ps ! m + (\<Sum>i\<in>I - {m}. ps ! i)"
    by (rule sum.remove [OF Suc.prems(1) m(1)])
  moreover have "sum_list (take (card I) ps) = sum_list (take k ps) + ps ! k"
    using km ml by (simp add: Suc.hyps(2) [symmetric] take_Suc_conv_app_nth)
  ultimately show ?case by linarith
qed

lemma foldl_wrap64:
  assumes "\<forall>p\<in>set ps. 0 \<le> p" "0 \<le> s" "s + sum_list ps < 2 ^ 63"
  shows "foldl (\<lambda>s p. wrap64 (s + p)) s ps = s + sum_list ps"
  using assms
proof (induction ps arbitrary: s)
  case (Cons p ps)
  have "0 \<le> sum_list ps" using Cons.prems(1) by (simp add: sum_list_nonneg)
  then have w: "wrap64 (s + p) = s + p" using Cons.prems by (intro wrap64_id) auto
  show ?case using Cons.IH [of "s + p"] Cons.prems by (simp add: w add.assoc)
qed simp

text \<open>The loop stops at the first prefix above a third.\<close>

lemma nakamoto_from_exact:
  assumes "\<forall>p\<in>set ps. 0 \<le> p" "0 \<le> c" "(c + sum_list ps) * 3 < 2 ^ 63" "tp < (c + sum_list ps) * 3" "c * 3 \<le> tp"
  shows "\<exists>k. nakamoto_from ps tp c n = n + k \<and> 0 < k \<and> k \<le> length ps \<and>
    tp < (c + sum_list (take k ps)) * 3 \<and> (\<forall>j<k. (c + sum_list (take j ps)) * 3 \<le> tp)"
  using assms
proof (induction ps arbitrary: c n)
  case (Cons p ps)
  have nn: "0 \<le> sum_list ps" "0 \<le> p" using Cons.prems(1) by (auto simp: sum_list_nonneg)
  have w: "wrap64 (c + p) = c + p" "wrap64 ((c + p) * 3) = (c + p) * 3"
    using Cons.prems(2,3) nn by (intro wrap64_id; simp)+
  have step: "nakamoto_from (p # ps) tp c n = (if tp < (c + p) * 3 then n + 1 else nakamoto_from ps tp (c + p) (n + 1))"
    unfolding nakamoto_from.simps Let_def w ..
  show ?case
  proof (cases "tp < (c + p) * 3")
    case True
    then show ?thesis using Cons.prems(5) by (intro exI [of _ 1]) (simp add: step del: nakamoto_from.simps)
  next
    case False
    then obtain k where k: "nakamoto_from ps tp (c + p) (n + 1) = (n + 1) + k" "0 < k" "k \<le> length ps"
        "tp < (c + p + sum_list (take k ps)) * 3" "\<forall>j<k. (c + p + sum_list (take j ps)) * 3 \<le> tp"
      using Cons.IH [of "c + p" "n + 1"] Cons.prems nn by (auto simp: add.assoc)
    have "(c + sum_list (take j (p # ps))) * 3 \<le> tp" if "j < Suc k" for j
      using that k(5) Cons.prems(5) by (cases j) (auto simp: add.assoc)
    then show ?thesis using k False by (intro exI [of _ "Suc k"]) (simp add: step add.assoc del: nakamoto_from.simps)
  qed
qed simp

definition foundation_power :: "int list \<Rightarrow> bool list \<Rightarrow> int" where
  "foundation_power ps fs = (\<Sum>i | i < length ps \<and> i < length fs \<and> fs ! i. ps ! i)"

lemma foundation_fold:
  assumes "\<forall>p\<in>set ps. 0 \<le> p" "0 \<le> s" "s + sum_list ps < 2 ^ 63"
  shows "foldl (\<lambda>s (i, p). if P i then wrap64 (s + p) else s) s (enumerate n ps) =
    s + (\<Sum>i | i < length ps \<and> P (n + i). ps ! i)"
  using assms
proof (induction ps arbitrary: s n)
  case (Cons p ps)
  have nn: "0 \<le> sum_list ps" "0 \<le> p" using Cons.prems(1) by (auto simp: sum_list_nonneg)
  then have w: "wrap64 (s + p) = s + p" using Cons.prems by (intro wrap64_id) auto
  have "{i. i < length (p # ps) \<and> P (n + i)} = (if P n then {0} else {}) \<union> Suc ` {i. i < length ps \<and> P (Suc n + i)}"
    by (auto simp: image_iff less_Suc_eq_0_disj)
  then have "(\<Sum>i | i < length (p # ps) \<and> P (n + i). (p # ps) ! i) =
      (if P n then p else 0) + (\<Sum>i | i < length ps \<and> P (Suc n + i). ps ! i)"
    by (simp add: sum.reindex)
  then show ?case using Cons.IH [of "s + p" "Suc n"] Cons.IH [of s "Suc n"] Cons.prems nn
    by (simp add: w add.assoc)
qed simp

text \<open>
  (C19) For powers in descending order, far from overflow and not all zero, the metrics are what
  they are called. The Nakamoto coefficient is the least size of any coalition with more than a
  third of the power, not only of one made of the largest validators; the foundation share and
  the top share are the exact shares rounded down to a basis point.
\<close>

theorem kpis_exact:
  assumes "sorted_wrt (\<ge>) ps" "\<forall>p\<in>set ps. 0 \<le> p" "0 < sum_list ps" "sum_list ps * 10000 < 2 ^ 63"
    and "computeKPIs ps fs = (active, nakamoto, fbps, topbps, totalP)"
  shows "active = length ps \<and> totalP = sum_list ps \<and>
    (\<exists>I \<subseteq> {..<length ps}. card I = nakamoto \<and> totalP < 3 * (\<Sum>i\<in>I. ps ! i)) \<and>
    (\<forall>I \<subseteq> {..<length ps}. totalP < 3 * (\<Sum>i\<in>I. ps ! i) \<longrightarrow> nakamoto \<le> card I) \<and>
    fbps = foundation_power ps fs * 10000 div totalP \<and>
    topbps = Max (set ps) * 10000 div totalP"
proof -
  have ne: "ps \<noteq> []" using assms(3) by auto
  have tot: "foldl (\<lambda>s p. wrap64 (s + p)) 0 ps = sum_list ps"
    using foldl_wrap64 [of ps 0] assms by simp
  have fp: "foldl (\<lambda>s (i, p). if i < length fs \<and> fs ! i then wrap64 (s + p) else s) 0 (enumerate 0 ps) = foundation_power ps fs"
    using foundation_fold [of ps 0 "\<lambda>i. i < length fs \<and> fs ! i" 0] assms by (simp add: foundation_power_def)
  have fnn: "0 \<le> foundation_power ps fs"
    using assms(2) unfolding foundation_power_def by (intro sum_nonneg) auto
  have "foundation_power ps fs \<le> (\<Sum>i<length ps. ps ! i)"
    unfolding foundation_power_def using assms(2) by (intro sum_mono2) auto
  also have "\<dots> = sum_list ps" by (simp add: sum_list_sum_nth atLeast0LessThan)
  finally have fle: "foundation_power ps fs \<le> sum_list ps" .
  have top: "ps ! 0 = Max (set ps)"
    using assms(1) ne by (cases ps) (auto intro!: Max_eqI [symmetric])
  have tle: "ps ! 0 \<le> sum_list ps" "0 \<le> ps ! 0"
    using sum_list_member_le [of ps "ps ! 0"] assms(2) ne by auto
  have res: "active = length ps" "totalP = sum_list ps" "nakamoto = nakamoto_from ps (sum_list ps) 0 0"
      "fbps = quo (wrap64 (foundation_power ps fs * 10000)) (sum_list ps)"
      "topbps = quo (wrap64 (ps ! 0 * 10000)) (sum_list ps)"
    using assms(3,5) by (auto simp: computeKPIs_def Let_def tot fp)
  obtain k where k: "nakamoto = k" "k \<le> length ps" "sum_list ps < sum_list (take k ps) * 3"
      "\<forall>j<k. sum_list (take j ps) * 3 \<le> sum_list ps"
    using nakamoto_from_exact [of ps 0 "sum_list ps" 0] assms res(3) by auto
  have "(\<Sum>i<k. ps ! i) = sum_list (take k ps)"
    using k(2) by (simp add: sum_list_sum_nth atLeast0LessThan min_def)
  then have ex: "\<exists>I \<subseteq> {..<length ps}. card I = nakamoto \<and> totalP < 3 * (\<Sum>i\<in>I. ps ! i)"
    using k res(2) by (intro exI [of _ "{..<k}"]) auto
  have min: "nakamoto \<le> card I" if I: "I \<subseteq> {..<length ps}" "totalP < 3 * (\<Sum>i\<in>I. ps ! i)" for I
  proof (rule ccontr)
    assume "\<not> nakamoto \<le> card I"
    then have "sum_list (take (card I) ps) * 3 \<le> sum_list ps" using k by simp
    moreover have "(\<Sum>i\<in>I. ps ! i) \<le> sum_list (take (card I) ps)"
      using I(1) by (intro sum_top_le [OF assms(1)]) (auto intro: finite_subset)
    ultimately show False using I(2) res(2) by linarith
  qed
  have fb: "fbps = foundation_power ps fs * 10000 div totalP"
    using fnn fle assms(3,4) by (simp add: res wrap64_id quo_pos)
  have tb: "topbps = Max (set ps) * 10000 div totalP"
    using tle assms(3,4) by (simp add: res top [symmetric] wrap64_id quo_pos)
  show ?thesis using ex min fb tb res(1,2) by blast
qed

theorem kpis_exact_witness:
  "\<exists>I \<subseteq> {..<4::nat}. card I = 2 \<and> 10 < 3 * (\<Sum>i\<in>I. [3, 3, 2, 2 :: int] ! i)"
proof -
  have "computeKPIs [3, 3, 2, 2] [True] = (4, 2, 3000, 3000, 10)" by code_simp
  from kpis_exact [OF _ _ _ _ this] show ?thesis by (simp add: numeral_eq_Suc)
qed

subsection \<open>Clawback\<close>


text \<open>Every record is stored under the grantee it names, one per grantee and in order.\<close>

definition vg_wf :: "valgrant_store \<Rightarrow> bool" where
  "vg_wf st \<longleftrightarrow> kv_ok (GrantsPrefix st) \<and> kv_ok (PendingClawbackPref st) \<and>
    (\<forall>k g. kv_get (GrantsPrefix st) k = Some (Json g) \<longrightarrow> Grantee g = k) \<and>
    (\<forall>k pc. kv_get (PendingClawbackPref st) k = Some (Json pc) \<longrightarrow> pc_Grantee pc = k)"

definition GetPending :: "valgrant_store \<Rightarrow> string \<Rightarrow> pending_clawback option" where
  "GetPending st grantee = read_opt (kv_get (PendingClawbackPref st) grantee)"

lemma read_opt_Some_iff [simp]: "read_opt r = Some p \<longleftrightarrow> r = Some (Json p)"
  by (auto simp: read_opt_def split: option.splits blob.splits)


lemma GetGrant_sets [simp]:
  "GetGrant (SetGrant st gr) g = (if g = Grantee gr then Some gr else GetGrant st g)"
  "GetGrant (SetPendingClawback st pc) g = GetGrant st g"
  "GetGrant (DeletePendingClawback st k) g = GetGrant st g"
  "GetGrant (SetParams_valgrant st p) g = GetGrant st g"
  "GetGrant (SetKPISnapshot st s) g = GetGrant st g"
  by (simp_all add: GetGrant_def SetGrant_def SetPendingClawback_def DeletePendingClawback_def
      SetParams_valgrant_def SetKPISnapshot_def)

lemma GetPending_sets [simp]:
  "GetPending (SetGrant st gr) g = GetPending st g"
  "GetPending (SetPendingClawback st pc) g = (if g = pc_Grantee pc then Some pc else GetPending st g)"
  "GetPending (DeletePendingClawback st k) g = (if g = k then None else GetPending st g)"
  "GetPending (SetParams_valgrant st p) g = GetPending st g"
  "GetPending (SetKPISnapshot st s) g = GetPending st g"
  by (simp_all add: GetPending_def SetGrant_def SetPendingClawback_def DeletePendingClawback_def
      SetParams_valgrant_def SetKPISnapshot_def)

lemma vg_wf_sets [simp]:
  "vg_wf st \<Longrightarrow> vg_wf (SetGrant st gr)" "vg_wf st \<Longrightarrow> vg_wf (SetPendingClawback st pc)"
  "vg_wf st \<Longrightarrow> vg_wf (DeletePendingClawback st k)" "vg_wf st \<Longrightarrow> vg_wf (SetParams_valgrant st p)"
  "vg_wf st \<Longrightarrow> vg_wf (SetKPISnapshot st s)"
  by (auto simp: vg_wf_def SetGrant_def SetPendingClawback_def DeletePendingClawback_def
      SetParams_valgrant_def SetKPISnapshot_def)






subsection \<open>The records as lists\<close>

lemma mem_map_filter: "y \<in> set (List.map_filter f xs) \<longleftrightarrow> (\<exists>x \<in> set xs. f x = Some y)"
  by (induction xs) (auto simp: map_filter_simps split: option.splits)

lemma map_filter_names:
  assumes "\<forall>k v. (k, Json v) \<in> set s \<longrightarrow> nm v = k"
  shows "map nm (List.map_filter (\<lambda>(_, v). read_opt (Some v)) s) = map fst (filter (\<lambda>(_, v). v \<noteq> Malformed) s)"
  using assms
proof (induction s)
  case (Cons e s)
  obtain k v where e: "e = (k, v)" by (cases e)
  show ?case using Cons by (cases v) (auto simp: e map_filter_simps)
qed (simp add: map_filter_simps)

lemma set_map_filter_Json: "set (List.map_filter (\<lambda>(_, v). read_opt (Some v)) s) = {p. \<exists>k. (k, Json p) \<in> set s}"
  by (force simp: mem_map_filter)






subsection \<open>What is owed\<close>

lemma GetParams_sets [simp]:
  "GetParams_valgrant (SetGrant st gr) = GetParams_valgrant st"
  "GetParams_valgrant (SetPendingClawback st pc) = GetParams_valgrant st"
  "GetParams_valgrant (DeletePendingClawback st k) = GetParams_valgrant st"
  "GetParams_valgrant (SetKPISnapshot st s) = GetParams_valgrant st"
  by (simp_all add: GetParams_valgrant_def SetGrant_def SetPendingClawback_def DeletePendingClawback_def SetKPISnapshot_def)

definition pending_amt :: "sdk_math \<Rightarrow> valgrant_store \<Rightarrow> string \<Rightarrow> int" where
  "pending_amt M st g = (case GetPending st g of None \<Rightarrow> 0 | Some pc \<Rightarrow> max 0 (read_int M (Some (SweepAmount pc))))"


definition swept_of :: "(string \<times> int) list \<Rightarrow> string \<Rightarrow> int" where
  "swept_of evs g = sum_list (map (\<lambda>(h, s). if h = g then max 0 s else 0) evs)"

lemma swept_of_simps [simp]:
  "swept_of [] g = 0" "swept_of (evs @ evs') g = swept_of evs g + swept_of evs' g"
  "swept_of [(h, s)] g = (if h = g then max 0 s else 0)"
  by (simp_all add: swept_of_def)


lemma pending_amt_del [simp]: "pending_amt M (DeletePendingClawback st k) g = (if g = k then 0 else pending_amt M st g)"
  by (simp add: pending_amt_def)





subsection \<open>Genesis\<close>

definition empty_valgrant :: valgrant_store where
  "empty_valgrant = \<lparr>vg_ParamsKey = None, GrantsPrefix = [], PendingClawbackPref = [], KPISnapshotKey = None\<rparr>"

lemma wf_empty [simp]: "vg_wf empty_valgrant"
  by (simp add: vg_wf_def empty_valgrant_def)

lemma kv_set_last: "\<forall>k' \<in> fst ` set s. k' < k \<Longrightarrow> kv_set k v s = s @ [(k, v)]"
  by (induction s) auto

lemma foldl_SetGrant: "GrantsPrefix (foldl SetGrant st gs) = foldl (\<lambda>s g. kv_set (Grantee g) (Json g) s) (GrantsPrefix st) gs"
  by (induction gs arbitrary: st) (simp_all add: SetGrant_def)

lemma foldl_SetGrant_frame [simp]:
  "vg_ParamsKey (foldl SetGrant st gs) = vg_ParamsKey st"
  "PendingClawbackPref (foldl SetGrant st gs) = PendingClawbackPref st"
  "KPISnapshotKey (foldl SetGrant st gs) = KPISnapshotKey st"
  "vg_wf st \<Longrightarrow> vg_wf (foldl SetGrant st gs)"
  by (induction gs arbitrary: st) (simp_all add: SetGrant_def [of _ "_ :: grant"] vg_wf_sets(1) [unfolded SetGrant_def])

lemma foldl_kv_set_sorted:
  assumes "sorted_wrt (<) (map nm gs)" "\<forall>k \<in> fst ` set s. \<forall>g \<in> set gs. k < nm g"
  shows "foldl (\<lambda>s g. kv_set (nm g) (Json g) s) s gs = s @ map (\<lambda>g. (nm g, Json g)) gs"
  using assms
proof (induction gs arbitrary: s)
  case (Cons g gs)
  have "kv_set (nm g) (Json g) s = s @ [(nm g, Json g)]" using Cons.prems(2) by (intro kv_set_last) auto
  with Cons.IH [of "s @ [(nm g, Json g)]"] Cons.prems show ?case by auto
qed simp

lemma IterateGrants_sorted:
  assumes "vg_wf st"
  shows "sorted_wrt (<) (map Grantee (IterateGrants st))"
proof -
  have "map Grantee (IterateGrants st) = map fst (filter (\<lambda>(_, v). v \<noteq> Malformed) (GrantsPrefix st))"
    unfolding IterateGrants_def using assms by (intro map_filter_names) (auto simp: vg_wf_def kv_mem_iff)
  then show ?thesis using kv_ok_filter [of "GrantsPrefix st"] assms by (simp add: kv_ok_def [symmetric] vg_wf_def)
qed

lemma map_filter_Json [simp]: "List.map_filter (\<lambda>(_, v). read_opt (Some v)) (map (\<lambda>g. (nm g, Json g)) gs) = gs"
  by (induction gs) (simp_all add: map_filter_simps)

text \<open>
  (C25) Exporting the state and importing it into an empty store gives the parameters and every
  grant back, and the export of the new store is the export of the old one. The pending
  clawbacks and the metrics are not part of the genesis: after the import there is no pending
  clawback left, although the grants they came from are still marked revoked.
\<close>

theorem valgrant_genesis_roundtrip:
  assumes "vg_wf st"
  shows "ExportGenesis_valgrant (InitGenesis_valgrant empty_valgrant (ExportGenesis_valgrant st)) = ExportGenesis_valgrant st \<and>
    (\<forall>g. GetGrant (InitGenesis_valgrant empty_valgrant (ExportGenesis_valgrant st)) g = GetGrant st g) \<and>
    (\<forall>g. GetPending (InitGenesis_valgrant empty_valgrant (ExportGenesis_valgrant st)) g = None)"
proof (intro conjI allI)
  let ?st' = "InitGenesis_valgrant empty_valgrant (ExportGenesis_valgrant st)"
  have gp: "GrantsPrefix ?st' = map (\<lambda>g. (Grantee g, Json g)) (IterateGrants st)"
    using foldl_kv_set_sorted [OF IterateGrants_sorted [OF assms], of "[]"]
    by (simp add: InitGenesis_valgrant_def ExportGenesis_valgrant_def foldl_SetGrant SetParams_valgrant_def empty_valgrant_def)
  then show "ExportGenesis_valgrant ?st' = ExportGenesis_valgrant st"
    by (simp add: ExportGenesis_valgrant_def [of ?st'] IterateGrants_def [of ?st'])
      (simp add: ExportGenesis_valgrant_def InitGenesis_valgrant_def GetParams_valgrant_def SetParams_valgrant_def)
  show "GetPending ?st' g = None" for g
    by (simp add: InitGenesis_valgrant_def GetPending_def SetParams_valgrant_def empty_valgrant_def)
  have wf: "vg_wf ?st'"
    by (simp add: InitGenesis_valgrant_def)
  have mem: "GetGrant s g = Some gr \<longleftrightarrow> gr \<in> set (IterateGrants s) \<and> Grantee gr = g" if "vg_wf s" for s g gr
    using that by (auto simp: GetGrant_def IterateGrants_def set_map_filter_Json vg_wf_def kv_mem_iff)
  have "IterateGrants ?st' = IterateGrants st" by (simp add: IterateGrants_def [of ?st'] gp)
  then show "GetGrant ?st' g = GetGrant st g" for g
    using mem [OF wf, of g] mem [OF assms, of g] by (metis not_None_eq)
qed

definition sample_grant :: grant where
  "sample_grant = \<lparr>Grantee = ''g'', LockedAmount = ''50'', GasAllowance = ''5'', ValidatorOp = '''',
     IssuedHeight = 1, IssuedTime = 10, Status = ''active''\<rparr>"

theorem valgrant_genesis_roundtrip_witness:
  "ExportGenesis_valgrant (InitGenesis_valgrant empty_valgrant
      (ExportGenesis_valgrant (SetGrant empty_valgrant sample_grant))) =
    \<lparr>vgg_Params = DefaultParams_valgrant, Grants = [sample_grant]\<rparr>"
proof -
  have "vg_wf (SetGrant empty_valgrant sample_grant)" by simp
  from valgrant_genesis_roundtrip [OF this] show ?thesis
    by (simp add: ExportGenesis_valgrant_def [of "SetGrant empty_valgrant sample_grant"])
      (simp add: GetParams_valgrant_def SetGrant_def empty_valgrant_def IterateGrants_def map_filter_simps)
qed

subsection \<open>Runs\<close>











definition sample_chain :: "(ledger, unit) chain" where
  "sample_chain = \<lparr>StringToBytes = Inr, GetAccount = (\<lambda>_ _. None), SetAccount = (\<lambda>b _ _. b),
    NewAccount = (\<lambda>b acc. (acc, b)), NewPermanentLockedAccount = (\<lambda>acc cs. Inr (PermanentLockedAccount acc cs)),
    BlockedAddr = (\<lambda>_. False), CoinsSort = (\<lambda>cs. cs), CoinsIsValid = (\<lambda>_. True),
    CoinsIsAllPositive = (\<lambda>cs. list_all (\<lambda>(_, x). 0 < x) cs), CoinsIsZero = (\<lambda>cs. cs = []),
    BondDenom = (\<lambda>_. Inr ''alimo''), ValStringToBytes = Inr,
    GetDelegatorDelegations = (\<lambda>_ _ _. Inr [(''v'', ())]), Undelegate = (\<lambda>b _ _ _. Inr (b, 100, 20)),
    GetBondedValidatorsByPower = (\<lambda>_. Inr [(''v'', 5)])\<rparr>"










subsection \<open>Burning\<close>

text \<open>
  (C24) Burning the pool succeeds exactly on a usable amount: nothing or zero means the whole
  balance, anything else must read as a positive integer, and the amount must be positive and
  within the balance. Then precisely that amount disappears from the pool and from the supply
  and no other balance changes; every other input is an error.
\<close>

theorem burn_pool_exact:
  assumes "bank_keeper bk" "BondDenom X b = Inr d"
  shows "((\<exists>b'. BurnPool X bk M amountStr b = Inr (b', amt)) \<longleftrightarrow>
      (if amountStr \<in> {'''', ''0''} then amt = bk_balance bk b (bk_modaddr bk ''valgrant'') d
       else NewIntFromString M amountStr = Some amt) \<and>
      0 < amt \<and> amt \<le> bk_balance bk b (bk_modaddr bk ''valgrant'') d) \<and>
    (\<forall>b'. BurnPool X bk M amountStr b = Inr (b', amt) \<longrightarrow>
      issued bk b b' (bk_modaddr bk ''valgrant'') (\<lambda>d'. if d' = d then - amt else 0))"
    (is "(?run \<longleftrightarrow> ?usable) \<and> _")
proof (intro conjI allI impI)
  let ?pool = "bk_balance bk b (bk_modaddr bk ''valgrant'') d"
  have m: "is_macc ''valgrant''" "has_perm ''valgrant'' Burner"
    by (simp_all add: is_macc_def has_perm_def maccPerms_def)
  show "?run \<longleftrightarrow> ?usable"
  proof
    assume ?run
    then show ?usable
      by (auto simp: BurnPool_def assms(2) m Let_def and_then_Inr not_less split: option.splits if_splits)
  next
    assume u: ?usable
    then obtain b' where "BurnCoins bk b ''valgrant'' (NewCoins d amt) = Inr b'"
      using bank_keeper.burn_one [OF assms(1) m(2)] by blast
    with u show ?run
      by (cases "amountStr \<in> {'''', ''0''}") (auto simp: BurnPool_def assms(2) m Let_def)
  qed
  fix b' assume "BurnPool X bk M amountStr b = Inr (b', amt)"
  then have "BurnCoins bk b ''valgrant'' (NewCoins d amt) = Inr b'"
    by (auto simp: BurnPool_def assms(2) m Let_def and_then_Inr split: option.splits if_splits)
  from bank_keeper.burn [OF assms(1) this]
  show "issued bk b b' (bk_modaddr bk ''valgrant'') (\<lambda>d'. if d' = d then - amt else 0)"
    by (simp add: issued_def if_distrib cong: if_cong)
qed

theorem burn_pool_exact_witness:
  "\<exists>b'. BurnPool sample_chain ledger_bank decimal ''''
      \<lparr>l_balance = (\<lambda>a d. if a = ''module/valgrant'' then 7 else 0), l_supply = (\<lambda>_. 7)\<rparr> = Inr (b', 7)"
proof -
  let ?b = "\<lparr>l_balance = (\<lambda>a d. if a = ''module/valgrant'' then 7 else 0), l_supply = (\<lambda>_. 7)\<rparr> :: ledger"
  have "BondDenom sample_chain ?b = Inr ''alimo''" by (simp add: sample_chain_def)
  from burn_pool_exact [OF ledger.bank_keeper_axioms this, of decimal "''''" 7]
  show ?thesis by (simp add: ledger_bank_def)
qed

subsection \<open>The deferred sweep happens\<close>










subsection \<open>Authority\<close>



end
