(* ===== verification/EncParams.thy ===== *)
theory EncParams
  imports StakeWeight
begin

text \<open>
  The parameters and the genesis of \<open>x/encmempool\<close> with everything \<open>Validate\<close> checks. Whether
  bytes are a compressed secp256k1 point and whether a string is a coin denomination are
  parameters (\<open>valid_point\<close>, \<open>valid_denom\<close>): the curve library and the SDK decide them. A Go
  \<open>int\<close> has 64 bits.
\<close>

subsection \<open>Parameters\<close>

record dkg_member =
  dm_OperatorAddr :: string
  dm_AccountAddr :: string
  dm_EncPubKey :: bytes

record enc_params =
  RevealDelay :: nat
  MaxRevealWindow :: nat
  EncEnabled :: bool
  EncExecEnabled :: bool
  ThresholdPub :: bytes
  Threshold :: nat
  Keypers :: "string list"
  DecryptDelay :: nat
  MaxInFlightEncTx :: nat
  MaxInFlightPerSubmitter :: nat
  EncSubmitBond :: nat
  EncSubmitBondDenom :: string
  EncSubmitBondBurnBps :: nat
  MaxVerifyOpsPerBlock :: nat
  DkgEnabled :: bool
  DkgStartHeight :: nat
  DkgDealWindow :: nat
  DkgComplaintWindow :: nat
  DkgThreshold :: nat
  DkgMembers :: "dkg_member list"
  DkgRetryBackoff :: nat
  DkgMaxAttempts :: nat
  DkgMinRekeyGap :: nat
  DkgTransparent :: bool
  DkgMaxMembers :: nat
  DkgShareBudget :: nat
  DkgMaxEpochBlocks :: nat
  DkgRekeyOnStakeDriftBps :: nat
  DkgRetainActiveDealings :: bool
  DkgStrictConcentration :: bool

definition DefaultParams_enc :: enc_params where
  "DefaultParams_enc = \<lparr>RevealDelay = 1, MaxRevealWindow = 100, EncEnabled = False, EncExecEnabled = False,
    ThresholdPub = [], Threshold = 0, Keypers = [], DecryptDelay = 1,
    MaxInFlightEncTx = 32768, MaxInFlightPerSubmitter = 2048,
    EncSubmitBond = 1000000, EncSubmitBondDenom = ''stake'', EncSubmitBondBurnBps = 10000,
    MaxVerifyOpsPerBlock = 0, DkgEnabled = False, DkgStartHeight = 0, DkgDealWindow = 20, DkgComplaintWindow = 10,
    DkgThreshold = 0, DkgMembers = [], DkgRetryBackoff = 5, DkgMaxAttempts = 8, DkgMinRekeyGap = 30,
    DkgTransparent = False, DkgMaxMembers = 0, DkgShareBudget = 0, DkgMaxEpochBlocks = 43200,
    DkgRekeyOnStakeDriftBps = 500, DkgRetainActiveDealings = True, DkgStrictConcentration = True\<rparr>"

definition EffectiveShareBudget :: "enc_params \<Rightarrow> int" where
  "EffectiveShareBudget p = (if DkgShareBudget p = 0 then 256 else int (DkgShareBudget p))"

definition EffectiveMaxVerifyOps :: "enc_params \<Rightarrow> int" where
  "EffectiveMaxVerifyOps p = (if MaxVerifyOpsPerBlock p = 0 then 4096 else wrap64 (int (MaxVerifyOpsPerBlock p)))"

definition EffectiveMaxMembers :: "enc_params \<Rightarrow> int" where
  "EffectiveMaxMembers p = (if DkgMaxMembers p = 0 then 16 else int (DkgMaxMembers p))"

definition VoteExtShareCap :: "enc_params \<Rightarrow> int" where
  "VoteExtShareCap p = (let s = EffectiveShareBudget p in if s > 256 then s else 256)"

definition DkgInjectedCommitBytesUpperBound :: "enc_params \<Rightarrow> int" where
  "DkgInjectedCommitBytesUpperBound p =
    (let m = EffectiveMaxMembers p; s = EffectiveShareBudget p;
       twoThirds = quo (2 * m) 3 + 1
     in wrap64 (twoThirds * wrap64 (s * 900)))"

definition DkgInjectedCommitPayloadBudget :: "int \<Rightarrow> int" where
  "DkgInjectedCommitPayloadBudget maxTxBytes = (if maxTxBytes \<le> 0 then 0 else maxTxBytes - quo maxTxBytes 8)"

definition DkgInjectedCommitFitsMaxTxBytes :: "enc_params \<Rightarrow> int \<Rightarrow> bool" where
  "DkgInjectedCommitFitsMaxTxBytes p maxTxBytes =
    (let budget = DkgInjectedCommitPayloadBudget maxTxBytes in
     if budget \<le> 0 then False else DkgInjectedCommitBytesUpperBound p < budget)"

abbreviation maxDkgPhaseWindow :: nat where "maxDkgPhaseWindow \<equiv> 600"
abbreviation maxDkgWindowBlocks :: nat where "maxDkgWindowBlocks \<equiv> 10000000"

definition window_ok :: "nat \<Rightarrow> unit result" where
  "window_ok v = ensure (1 \<le> v \<and> v \<le> maxDkgPhaseWindow) (Error ''window out of range'')"

definition ValidateDkgWindows :: "enc_params \<Rightarrow> unit result" where
  "ValidateDkgWindows p =
    and_then (window_ok (DkgDealWindow p)) (\<lambda>_.
    and_then (window_ok (DkgComplaintWindow p)) (\<lambda>_.
    and_then (window_ok (DkgRetryBackoff p)) (\<lambda>_.
      if DkgMinRekeyGap p > maxDkgWindowBlocks then Inl (Error ''dkg_min_rekey_gap'')
      else if DkgMaxAttempts p > maxDkgWindowBlocks then Inl (Error ''dkg_max_attempts'')
      else if DkgMaxMembers p > 128 then Inl (Error ''dkg_max_members must be <= 128'')
      else if DkgMaxMembers p \<noteq> 0 \<and> DkgMaxMembers p < 4 then Inl (Error ''dkg_max_members must be 0 (default) or >= 4'')
      else if DkgShareBudget p > 1024 then Inl (Error ''dkg_share_budget must be <= 1024'')
      else if DkgMaxEpochBlocks p > maxDkgWindowBlocks then Inl (Error ''dkg_max_epoch_blocks'')
      else if DkgRekeyOnStakeDriftBps p > 10000 then Inl (Error ''dkg_rekey_on_stake_drift_bps'')
      else if DkgTransparent p then
        (if EffectiveShareBudget p < 8 * EffectiveMaxMembers p
         then Inl (Error ''dkg_share_budget must be >= 8 * the effective committee cap'')
         else if \<not> DkgInjectedCommitFitsMaxTxBytes p 20000000
         then Inl (Error ''injected commit exceeds the assumed proposer injection budget'')
         else Inr ())
      else Inr ())))"

fun validate_members :: "(bytes \<Rightarrow> bool) \<Rightarrow> string set \<Rightarrow> string set \<Rightarrow> dkg_member list \<Rightarrow> unit result" where
  "validate_members valid_point seenOp seenAcc [] = Inr ()"
| "validate_members valid_point seenOp seenAcc (m # ms) =
     (if dm_OperatorAddr m = '''' \<or> dm_AccountAddr m = ''''
      then Inl (Error ''dkg_members: operator_addr and account_addr are required'')
      else if length (dm_EncPubKey m) \<noteq> 33 then Inl (Error ''dkg_members: enc_pubkey must be a 33-byte compressed key'')
      else if \<not> valid_point (dm_EncPubKey m) then Inl (Error ''dkg_members: enc_pubkey is not a valid point'')
      else if dm_OperatorAddr m \<in> seenOp \<or> dm_AccountAddr m \<in> seenAcc
      then Inl (Error ''dkg_members: duplicate operator/account address'')
      else validate_members valid_point (insert (dm_OperatorAddr m) seenOp) (insert (dm_AccountAddr m) seenAcc) ms)"

fun validate_keypers :: "string set \<Rightarrow> string list \<Rightarrow> unit result" where
  "validate_keypers seen [] = Inr ()"
| "validate_keypers seen (kp # kps) =
     (if kp = '''' then Inl (Error ''keyper address must not be empty'')
      else if kp \<in> seen then Inl (Error ''duplicate keyper address'')
      else validate_keypers (insert kp seen) kps)"

definition validate_dkg :: "(bytes \<Rightarrow> bool) \<Rightarrow> enc_params \<Rightarrow> unit result" where
  "validate_dkg valid_point p =
    (if \<not> DkgEnabled p then Inr ()
     else
       and_then
         (if DkgTransparent p then Inr ()
          else if DkgMembers p = [] then Inl (Error ''dkg_enabled requires a non-empty dkg_members set'')
          else and_then (validate_members valid_point {} {} (DkgMembers p)) (\<lambda>_.
            if DkgThreshold p \<noteq> 0 \<and> DkgThreshold p > length (DkgMembers p)
            then Inl (Error ''dkg_threshold must be <= number of members'') else Inr ()))
         (\<lambda>_. ValidateDkgWindows p))"

definition validate_enc :: "(string \<Rightarrow> bool) \<Rightarrow> enc_params \<Rightarrow> unit result" where
  "validate_enc valid_denom p =
    (if \<not> EncEnabled p then Inr ()
     else if DecryptDelay p = 0 then Inl (Error ''decrypt_delay must be >= 1 when enc_enabled'')
     else if MaxInFlightEncTx p = 0 then Inl (Error ''max_in_flight_enc_tx must be >= 1 when enc_enabled'')
     else if EncSubmitBond p > 0 \<and> \<not> valid_denom (EncSubmitBondDenom p)
     then Inl (Error ''enc_submit_bond_denom is required'')
     else if EncSubmitBondBurnBps p > 10000 then Inl (Error ''enc_submit_bond_burn_bps must be <= 10000'')
     else if EncSubmitBondBurnBps p > 0 \<and> EncSubmitBond p = 0
     then Inl (Error ''enc_submit_bond_burn_bps requires a positive enc_submit_bond'')
     else if EncExecEnabled p \<and> EncSubmitBond p = 0
     then Inl (Error ''enc_submit_bond must be positive when enc_exec_enabled'')
     else if EncExecEnabled p \<and> EncSubmitBondBurnBps p = 0
     then Inl (Error ''enc_submit_bond_burn_bps must be positive when enc_exec_enabled'')
     else if DkgEnabled p then
       (if DkgTransparent p \<and> DkgMaxEpochBlocks p = 0 \<and> DkgRekeyOnStakeDriftBps p = 0
        then Inl (Error ''a staleness-rekey trigger is required'') else Inr ())
     else if Threshold p = 0 then Inl (Error ''threshold must be >= 1 when enc_enabled'')
     else if Threshold p > length (Keypers p) then Inl (Error ''threshold exceeds keyper count'')
     else if ThresholdPub p = [] then Inl (Error ''threshold_pub must be set when enc_enabled'')
     else validate_keypers {} (Keypers p))"

definition Validate_params :: "(bytes \<Rightarrow> bool) \<Rightarrow> (string \<Rightarrow> bool) \<Rightarrow> enc_params \<Rightarrow> unit result" where
  "Validate_params valid_point valid_denom p =
    (if RevealDelay p = 0 then Inl (Error ''reveal_delay must be >= 1'')
     else if RevealDelay p > 10000000 then Inl (Error ''reveal_delay too large'')
     else if MaxRevealWindow p < RevealDelay p then Inl (Error ''max_reveal_window must be >= reveal_delay'')
     else if MaxRevealWindow p > 10000000 then Inl (Error ''max_reveal_window too large'')
     else if DecryptDelay p > maxDkgPhaseWindow then Inl (Error ''decrypt_delay must be <= 600'')
     else if MaxInFlightEncTx p > 2 ^ 40 \<or> MaxInFlightPerSubmitter p > 2 ^ 40
     then Inl (Error ''max_in_flight ceilings too large'')
     else if MaxVerifyOpsPerBlock p \<noteq> 0 \<and> (MaxVerifyOpsPerBlock p < 256 \<or> MaxVerifyOpsPerBlock p > 16384)
     then Inl (Error ''max_verify_ops_per_block out of range'')
     else if MaxInFlightEncTx p > 0 \<and> MaxInFlightPerSubmitter p > MaxInFlightEncTx p
     then Inl (Error ''max_in_flight_per_submitter must be <= max_in_flight_enc_tx'')
     else and_then (validate_dkg valid_point p) (\<lambda>_. validate_enc valid_denom p))"

subsection \<open>The records of the module\<close>

record commit =
  Sender :: string
  CommitHash :: bytes
  Height :: nat
  cm_Seq :: nat

record pending_reveal =
  pr_Sender :: string
  CommitHeight :: nat
  pr_Seq :: nat
  RevealTxBytes :: bytes
  Salt :: bytes



record stored_enc_share =
  MemberIndex :: nat
  se_A :: bytes
  se_Nonce :: bytes
  se_Body :: bytes

record dealing =
  dl_Epoch :: nat
  DealerIndex :: nat
  Dealer :: string
  Commitments :: "bytes list"
  EncShares :: "stored_enc_share list"

record complaint_rec =
  cr_Epoch :: nat
  Against :: nat
  AccuserIndex :: nat




subsection \<open>Validation of an imported genesis\<close>

fun check_members :: "(bytes \<Rightarrow> bool) \<Rightarrow> nat set \<Rightarrow> string set \<Rightarrow> round_member list \<Rightarrow> unit result" where
  "check_members valid_point seenIdx seenOp [] = Inr ()"
| "check_members valid_point seenIdx seenOp (m # ms) =
     (if Index m = 0 then Inl (Error ''members: index must be non-zero'')
      else if Index m \<in> seenIdx then Inl (Error ''members: duplicate index'')
      else if OperatorAddr m = '''' then Inl (Error ''members: operator_addr is required'')
      else if OperatorAddr m \<in> seenOp then Inl (Error ''members: duplicate operator_addr'')
      else if EncPubKey m \<noteq> [] \<and> \<not> valid_point (EncPubKey m) then Inl (Error ''members: enc_pubkey is not a valid point'')
      else check_members valid_point (insert (Index m) seenIdx) (insert (OperatorAddr m) seenOp) ms)"

fun check_points :: "nat set \<Rightarrow> nat list \<Rightarrow> nat set result" where
  "check_points seen [] = Inr seen"
| "check_points seen (p # ps) =
     (if p = 0 then Inl (Error ''eval point 0 is invalid'')
      else if p \<in> seen then Inl (Error ''duplicate eval point'')
      else check_points (insert p seen) ps)"

fun check_weighted :: "nat set \<Rightarrow> int \<Rightarrow> round_member list \<Rightarrow> (nat set \<times> int) result" where
  "check_weighted seen totalWeight [] = Inr (seen, totalWeight)"
| "check_weighted seen totalWeight (m # ms) =
     (if \<not> Weighted m then Inl (Error ''mixed weighted/unweighted round'')
      else if Weight m \<noteq> None \<and> the (Weight m) < 0 then Inl (Error ''negative weight'')
      else if EvalPoints m \<noteq> [] \<and> (Weight m = None \<or> \<not> 0 < the (Weight m))
      then Inl (Error ''weighted member owns eval points with non-positive weight'')
      else and_then (check_points seen (EvalPoints m)) (\<lambda>seen'.
        check_weighted seen' (totalWeight + (case Weight m of None \<Rightarrow> 0 | Some w \<Rightarrow> w)) ms))"

definition want_threshold :: "nat \<Rightarrow> nat" where
  "want_threshold n = (let want = u32 (2 * n div 3 + 1) in if want > n then u32 n else want)"

definition validateImportedRound :: "(bytes \<Rightarrow> bool) \<Rightarrow> dkg_round \<Rightarrow> unit result" where
  "validateImportedRound valid_point r =
    (if Status r \<notin> {DkgStatusOpen, DkgStatusActive, DkgStatusFailed} then Inl (Error ''invalid status'')
     else if OpenHeight r > DealDeadline r \<or> DealDeadline r > ComplaintDeadline r then Inl (Error ''invalid deadlines'')
     else if Members r = [] then Inl (Error ''members must be non-empty'')
     else if dr_Threshold r = 0 then Inl (Error ''threshold must be non-zero'')
     else if dr_Threshold r > TotalEvalPoints (Members r) then Inl (Error ''threshold exceeds total eval points'')
     else and_then (check_members valid_point {} {} (Members r)) (\<lambda>_.
       if \<not> list_ex Weighted (Members r) then Inr ()
       else and_then (check_weighted {} 0 (Members r)) (\<lambda>(seenPoint, totalWeight).
         if \<not> list_all (\<lambda>p. p \<in> seenPoint) [1..<card seenPoint + 1]
         then Inl (Error ''weighted eval points must be contiguous'')
         else if \<not> 0 < totalWeight then Inl (Error ''weighted round total weight must be positive'')
         else if dr_Threshold r \<noteq> want_threshold (card seenPoint)
         then Inl (Error ''weighted threshold is not the strict >2/3 threshold'')
         else Inr ())))"






fun check_rounds :: "(bytes \<Rightarrow> bool) \<Rightarrow> (nat \<Rightarrow> dkg_round option) \<Rightarrow> dkg_round list \<Rightarrow> (nat \<Rightarrow> dkg_round option) result" where
  "check_rounds valid_point rounds [] = Inr rounds"
| "check_rounds valid_point rounds (r # rs) =
     (if dr_Epoch r = 0 then Inl (Error ''dkg_rounds: epoch must be non-zero'')
      else if rounds (dr_Epoch r) \<noteq> None then Inl (Error ''dkg_rounds: duplicate epoch'')
      else and_then (validateImportedRound valid_point r) (\<lambda>_. check_rounds valid_point (rounds(dr_Epoch r \<mapsto> r)) rs))"










subsection \<open>What the checks establish\<close>


lemma check_rounds_cover:
  "check_rounds vp m rs = Inr m' \<Longrightarrow> distinct (map dr_Epoch rs) \<and> (\<forall>r\<in>set rs. validateImportedRound vp r = Inr () \<and> m (dr_Epoch r) = None)"
  by (induction vp m rs rule: check_rounds.induct) (auto split: if_splits simp: and_then_Inr)








lemma check_points_ok:
  "check_points seen ps = Inr seen' \<Longrightarrow> seen' = seen \<union> set ps \<and> distinct ps \<and> set ps \<inter> seen = {}"
  by (induction seen ps rule: check_points.induct) (auto split: if_splits)

lemma check_weighted_ok:
  "check_weighted seen w ms = Inr (seen', w') \<Longrightarrow>
    list_all Weighted ms \<and> seen' = seen \<union> set (concat (map EvalPoints ms)) \<and> distinct (concat (map EvalPoints ms)) \<and>
    set (concat (map EvalPoints ms)) \<inter> seen = {}"
proof (induction ms arbitrary: seen w)
  case (Cons m ms)
  then obtain seen1 where "check_points seen (EvalPoints m) = Inr seen1"
    and rest: "check_weighted seen1 (w + (case Weight m of None \<Rightarrow> 0 | Some w \<Rightarrow> w)) ms = Inr (seen', w')"
    and "Weighted m"
    by (auto split: if_splits simp: and_then_Inr)
  with check_points_ok [of seen "EvalPoints m" seen1] Cons.IH [OF rest] show ?case by auto
qed simp











lemma validateImportedRound_weighted:
  assumes "validateImportedRound vp r = Inr ()" and "\<exists>m\<in>set (Members r). Weighted m"
    and small: "TotalEvalPoints (Members r) < 2 ^ 31"
  shows "distinct (concat (map OwnedEvalPoints (Members r))) \<and>
    set (concat (map OwnedEvalPoints (Members r))) = {1..TotalEvalPoints (Members r)} \<and>
    2 * TotalEvalPoints (Members r) < 3 * dr_Threshold r \<and> dr_Threshold r \<le> TotalEvalPoints (Members r)"
proof -
  let ?S = "TotalEvalPoints (Members r)"
  obtain seen w where cw: "check_weighted {} 0 (Members r) = Inr (seen, w)"
    and contig: "list_all (\<lambda>p. p \<in> seen) [1..<card seen + 1]" and t: "dr_Threshold r = want_threshold (card seen)"
    and le: "dr_Threshold r \<le> ?S" "0 < dr_Threshold r"
    using assms(1,2) unfolding validateImportedRound_def list_ex_iff
    by (auto simp: and_then_Inr simp del: upt_Suc list_all_append split: if_splits)
  note ok = check_weighted_ok [OF cw]
  have own: "map OwnedEvalPoints (Members r) = map EvalPoints (Members r)"
    using ok by (auto simp: OwnedEvalPoints_def list_all_iff)
  have fin: "finite seen" using ok by simp
  have S: "?S = card seen"
    using ok unfolding TotalEvalPoints_eq own by (simp add: distinct_card [symmetric] del: distinct_concat_iff set_concat)
  have "{1..<card seen + 1} \<subseteq> seen" using contig by (auto simp: list_all_iff simp del: upt_Suc)
  then have "{1..<card seen + 1} = seen" by (rule card_subset_eq [OF fin]) simp
  then have "seen = {1..?S}" unfolding S by (simp add: atLeastLessThanSuc_atLeastAtMost)
  then have "set (concat (map OwnedEvalPoints (Members r))) = {1..?S}"
    using ok unfolding own by (simp del: set_concat)
  moreover have "2 * ?S < 3 * dr_Threshold r"
    using small le unfolding t S [symmetric] want_threshold_def Let_def u32_def by (auto split: if_splits)
  ultimately show ?thesis using ok le unfolding own by blast
qed

subsection \<open>Properties\<close>





lemma quo_div: "0 \<le> a \<Longrightarrow> 0 < b \<Longrightarrow> quo a b = a div b"
  by (simp add: quo_pos)

lemma Validate_params_dkg:
  assumes "Validate_params vp vd p = Inr ()" and "DkgEnabled p"
  shows "ValidateDkgWindows p = Inr ()"
  using assms by (auto simp: Validate_params_def validate_dkg_def and_then_Inr split: if_splits)

lemma ValidateDkgWindows_ok:
  assumes "ValidateDkgWindows p = Inr ()"
  shows "DkgMaxMembers p = 0 \<or> 4 \<le> DkgMaxMembers p \<and> DkgMaxMembers p \<le> 128"
    and "DkgShareBudget p \<le> 1024"
    and "DkgTransparent p \<Longrightarrow> 8 * EffectiveMaxMembers p \<le> EffectiveShareBudget p \<and> DkgInjectedCommitFitsMaxTxBytes p 20000000"
    and "{DkgDealWindow p, DkgComplaintWindow p, DkgRetryBackoff p} \<subseteq> {1..600}"
  using assms by (auto simp: ValidateDkgWindows_def window_ok_def ensure_def and_then_Inr split: if_splits)

text \<open>
  (C30) Validated parameters bound the work of the transparent key generation: the committee has 4
  to 59 seats (the ceiling of 128 is out of reach), the budget has at least eight points per seat and at most 1024, the bytes a
  two-thirds majority of maximal vote extensions can take are computed without wrapping and stay
  below seven eighths of the 20 MB transaction limit, the vote-extension cap is at most 1024,
  and every phase lasts 1 to 600 blocks.
\<close>

theorem validated_work_bounded:
  assumes "Validate_params valid_point valid_denom p = Inr ()" and "DkgEnabled p" and "DkgTransparent p"
  shows "EffectiveMaxMembers p \<in> {4..59} \<and> 8 * EffectiveMaxMembers p \<le> EffectiveShareBudget p \<and>
    EffectiveShareBudget p \<le> 1024 \<and>
    DkgInjectedCommitBytesUpperBound p = (2 * EffectiveMaxMembers p div 3 + 1) * EffectiveShareBudget p * 900 \<and>
    DkgInjectedCommitBytesUpperBound p < 17500000 \<and>
    VoteExtShareCap p \<in> {256..1024} \<and> EffectiveMaxVerifyOps p \<in> {256..16384} \<and>
    {DkgDealWindow p, DkgComplaintWindow p, DkgRetryBackoff p, DecryptDelay p + 1} \<subseteq> {1..601}"
proof -
  note w = ValidateDkgWindows_ok [OF Validate_params_dkg [OF assms(1,2)]]
  have m: "4 \<le> EffectiveMaxMembers p" "EffectiveMaxMembers p \<le> 128" using w(1) by (auto simp: EffectiveMaxMembers_def)
  have s: "EffectiveShareBudget p \<le> 1024" using w(2) by (auto simp: EffectiveShareBudget_def)
  have ms: "8 * EffectiveMaxMembers p \<le> EffectiveShareBudget p" using w(3) assms(3) by blast
  let ?t = "2 * EffectiveMaxMembers p div 3 + 1" and ?s = "EffectiveShareBudget p"
  have t: "0 \<le> ?t" "?t \<le> 86" using m by auto
  have s0: "0 \<le> ?s * 900" "?s * 900 \<le> 921600" using s ms m by auto
  have "?t * (?s * 900) \<le> 86 * 921600" using t s0 by (intro mult_mono) auto
  moreover have "0 \<le> ?t * (?s * 900)" using t s0 by simp
  ultimately have "wrap64 (?t * (?s * 900)) = ?t * (?s * 900)" by (intro wrap64_id) auto
  then have b: "DkgInjectedCommitBytesUpperBound p = ?t * ?s * 900"
    using s0 m by (simp add: DkgInjectedCommitBytesUpperBound_def Let_def quo_div wrap64_id [of "?s * 900"] mult.assoc)
  have fit: "DkgInjectedCommitBytesUpperBound p < 17500000"
    using w(3) assms(3) by (simp add: DkgInjectedCommitFitsMaxTxBytes_def DkgInjectedCommitPayloadBudget_def quo_div)
  have "EffectiveMaxMembers p \<le> 59"
  proof (rule ccontr)
    assume "\<not> EffectiveMaxMembers p \<le> 59"
    then have "41 \<le> ?t" "480 \<le> ?s" using ms by auto
    then have "41 * 480 \<le> ?t * ?s" by (intro mult_mono) auto
    then show False using fit unfolding b by simp
  qed
  moreover have "EffectiveMaxVerifyOps p \<in> {256..16384}" "DecryptDelay p \<le> 600"
    using assms(1) by (auto simp: Validate_params_def EffectiveMaxVerifyOps_def wrap64_id split: if_splits)
  ultimately show ?thesis using m s ms b fit w(4) by (auto simp: VoteExtShareCap_def Let_def)
qed

theorem validated_work_bounded_witness:
  "DkgInjectedCommitBytesUpperBound (DefaultParams_enc\<lparr>DkgEnabled := True, DkgTransparent := True, DkgShareBudget := 128\<rparr>) < 17500000"
proof -
  let ?p = "DefaultParams_enc\<lparr>DkgEnabled := True, DkgTransparent := True, DkgShareBudget := 128\<rparr>"
  have v: "Validate_params (\<lambda>b. True) (\<lambda>d. True) ?p = Inr ()"
    by (simp add: Validate_params_def DefaultParams_enc_def validate_dkg_def validate_enc_def ValidateDkgWindows_def
        window_ok_def ensure_def and_then_def EffectiveShareBudget_def EffectiveMaxMembers_def
        DkgInjectedCommitFitsMaxTxBytes_def DkgInjectedCommitPayloadBudget_def DkgInjectedCommitBytesUpperBound_def
        quo_div wrap64_id)
  have "DkgEnabled ?p" "DkgTransparent ?p" by simp_all
  from validated_work_bounded [OF v this] show ?thesis by blast
qed

end
