(* ===== verification/Threshold.thy ===== *)
theory Threshold
  imports EncTypes Complex_Main
begin

text \<open>
  The threshold encryption and key generation of \<open>x/encmempool\<close> (\<open>threshold/threshold.go\<close>,
  \<open>dkg/dkg.go\<close>, \<open>dkg/onchain.go\<close>, \<open>dkg/proof.go\<close>) over an abstract group. Scalars are a field,
  points a commutative group; what the code takes from the secp256k1, SHA-256 and AES-GCM libraries
  is the record \<open>curve\<close>, and the locale \<open>secp256k1\<close> states what it relies on. Random scalars and
  nonces are arguments.
\<close>

subsection \<open>The libraries\<close>

record ('f, 'g) curve =
  ScalarMult :: "'f \<Rightarrow> 'g \<Rightarrow> 'g"
  Base :: 'g
  SerializeCompressed :: "'g \<Rightarrow> bytes"
  ParsePubKey :: "bytes \<Rightarrow> 'g option"
  scalar_Bytes :: "'f \<Rightarrow> bytes"
  SetBytes :: "bytes \<Rightarrow> 'f \<times> bool"
  Sum256 :: "bytes \<Rightarrow> bytes"
  gcm_Seal :: "bytes \<Rightarrow> bytes \<Rightarrow> bytes \<Rightarrow> bytes"
  gcm_Open :: "bytes \<Rightarrow> bytes \<Rightarrow> bytes \<Rightarrow> bytes option"

text \<open>\<open>SetBytes\<close> reduces modulo the group order and reports whether it had to.\<close>

abbreviation ScalarBaseMult :: "('f, 'g) curve \<Rightarrow> 'f \<Rightarrow> 'g" where
  "ScalarBaseMult cv x \<equiv> ScalarMult cv x (Base cv)"

record ciphertext =
  ct_A :: bytes
  ct_Nonce :: bytes
  ct_Body :: bytes

record 'f key_share =
  ks_Index :: nat
  Xi :: 'f

record decrypt_share =
  ds_Index :: nat
  ds_D :: bytes

record 'f dleq_proof =
  dleq_C :: 'f
  dleq_Z :: 'f

abbreviation NonceSize :: nat where "NonceSize \<equiv> 12"

definition scalarFromUint :: "nat \<Rightarrow> 'f :: field" where
  "scalarFromUint v = of_nat (v mod 2 ^ 32)"

subsection \<open>Threshold encryption\<close>

definition kdf :: "('f, 'g) curve \<Rightarrow> 'g \<Rightarrow> bytes" where
  "kdf cv shared = Sum256 cv (SerializeCompressed cv shared)"

text \<open>Horner's rule, from the highest coefficient down.\<close>

fun horner :: "'f :: field \<Rightarrow> 'f \<Rightarrow> 'f list \<Rightarrow> 'f" where
  "horner z acc [] = acc"
| "horner z acc (c # cs) = horner z (acc * z + c) cs"

definition evalPoly :: "'f :: field list \<Rightarrow> nat \<Rightarrow> 'f" where
  "evalPoly coeffs z = (case rev coeffs of [] \<Rightarrow> 0 | c # cs \<Rightarrow> horner (scalarFromUint z) c cs)"

definition Setup ::
    "('f :: field, 'g) curve \<Rightarrow> nat \<Rightarrow> nat \<Rightarrow> 'f list \<Rightarrow> (bytes \<times> 'f key_share list) result" where
  "Setup cv n t coeffs =
    (if t < 1 \<or> t > n then Inl (Error ''invalid threshold'')
     else Inr (SerializeCompressed cv (ScalarBaseMult cv (coeffs ! 0)),
       map (\<lambda>i. \<lparr>ks_Index = i, Xi = evalPoly coeffs i\<rparr>) [1..<n + 1]))"

definition EncryptWithR :: "('f, 'g) curve \<Rightarrow> bytes \<Rightarrow> bytes \<Rightarrow> 'f \<Rightarrow> bytes \<Rightarrow> ciphertext result" where
  "EncryptWithR cv pub msg r nonce =
    (case ParsePubKey cv pub of None \<Rightarrow> Inl (Error ''malformed public key'')
     | Some Y \<Rightarrow>
       let a = ScalarBaseMult cv r; shared = ScalarMult cv r Y; key = kdf cv shared
       in Inr \<lparr>ct_A = SerializeCompressed cv a, ct_Nonce = nonce, ct_Body = gcm_Seal cv key nonce msg\<rparr>)"

definition ComputeShare :: "('f, 'g) curve \<Rightarrow> 'f key_share \<Rightarrow> ciphertext \<Rightarrow> decrypt_share result" where
  "ComputeShare cv s ct =
    (case ParsePubKey cv (ct_A ct) of None \<Rightarrow> Inl (Error ''malformed A'')
     | Some a \<Rightarrow> Inr \<lparr>ds_Index = ks_Index s, ds_D = SerializeCompressed cv (ScalarMult cv (Xi s) a)\<rparr>)"

definition lagrangeAtZero :: "nat \<Rightarrow> nat list \<Rightarrow> 'f :: field" where
  "lagrangeAtZero i indices =
    (case foldl (\<lambda>(num, den) j.
         if j = i then (num, den)
         else (num * scalarFromUint j, den * (scalarFromUint j + (- scalarFromUint i)))) (scalarFromUint 1, scalarFromUint 1) indices
     of (num, den) \<Rightarrow> num * inverse den)"

fun recover_terms ::
    "('f :: field, 'g :: ab_group_add) curve \<Rightarrow> nat list \<Rightarrow> 'g option \<Rightarrow> decrypt_share list \<Rightarrow> 'g option result" where
  "recover_terms cv indices acc [] = Inr acc"
| "recover_terms cv indices acc (s # ss) =
     (case ParsePubKey cv (ds_D s) of None \<Rightarrow> Inl (Error ''malformed D'')
      | Some d \<Rightarrow>
        let t = ScalarMult cv (lagrangeAtZero (ds_Index s) indices) d
        in recover_terms cv indices (Some (case acc of None \<Rightarrow> t | Some a \<Rightarrow> a + t)) ss)"

definition Recover :: "('f :: field, 'g :: ab_group_add) curve \<Rightarrow> decrypt_share list \<Rightarrow> 'g result" where
  "Recover cv shares =
    (if shares = [] then Inl (Error ''no shares'')
     else and_then (recover_terms cv (map ds_Index shares) None shares) (\<lambda>acc.
       Inr (case acc of None \<Rightarrow> 0 | Some p \<Rightarrow> p)))"

definition Decrypt :: "('f, 'g) curve \<Rightarrow> 'g \<Rightarrow> ciphertext \<Rightarrow> bytes result" where
  "Decrypt cv shared ct =
    (if length (ct_Nonce ct) \<noteq> NonceSize then Inl (Error ''invalid nonce length'')
     else case gcm_Open cv (kdf cv shared) (ct_Nonce ct) (ct_Body ct) of
       None \<Rightarrow> Inl (Error ''message authentication failed'') | Some m \<Rightarrow> Inr m)"

subsection \<open>Feldman commitments\<close>

definition ValidCompressedPoint :: "('f, 'g) curve \<Rightarrow> bytes \<Rightarrow> bool" where
  "ValidCompressedPoint cv b = (ParsePubKey cv b \<noteq> None)"

fun ParseCommitmentPoints :: "('f, 'g) curve \<Rightarrow> bytes list \<Rightarrow> 'g list result" where
  "ParseCommitmentPoints cv [] = Inr []"
| "ParseCommitmentPoints cv (c # cs) =
     (case ParsePubKey cv c of None \<Rightarrow> Inl (Error ''malformed commitment'')
      | Some p \<Rightarrow> and_then (ParseCommitmentPoints cv cs) (\<lambda>ps. Inr (p # ps)))"

fun horner_points :: "('f, 'g :: ab_group_add) curve \<Rightarrow> 'f \<Rightarrow> 'g \<Rightarrow> 'g list \<Rightarrow> 'g" where
  "horner_points cv z acc [] = acc"
| "horner_points cv z acc (c # cs) = horner_points cv z (ScalarMult cv z acc + c) cs"

definition SharePubKey :: "('f :: field, 'g :: ab_group_add) curve \<Rightarrow> 'g list \<Rightarrow> nat \<Rightarrow> 'g option" where
  "SharePubKey cv commitments index =
    (case rev commitments of [] \<Rightarrow> None
     | c # cs \<Rightarrow> Some (horner_points cv (scalarFromUint index) c cs))"

definition VerifyShare :: "('f :: field, 'g :: ab_group_add) curve \<Rightarrow> 'g list \<Rightarrow> nat \<Rightarrow> 'f \<Rightarrow> bool" where
  "VerifyShare cv commitments index share =
    (case SharePubKey cv commitments index of None \<Rightarrow> False
     | Some rhs \<Rightarrow> SerializeCompressed cv (ScalarBaseMult cv share) = SerializeCompressed cv rhs)"

definition Deal ::
    "('f :: field, 'g) curve \<Rightarrow> nat list \<Rightarrow> nat \<Rightarrow> 'f list \<Rightarrow> (bytes list \<times> (nat \<times> 'f) list) result" where
  "Deal cv members t coeffs =
    (if t < 1 then Inl (Error ''invalid threshold'')
     else if members = [] then Inl (Error ''no members'')
     else Inr (map (\<lambda>c. SerializeCompressed cv (ScalarBaseMult cv c)) coeffs, map (\<lambda>m. (m, evalPoly coeffs m)) members))"

subsection \<open>Public finalisation\<close>

record public_dealing =
  pd_Dealer :: nat
  pd_Commitments :: "bytes list"

record public_result =
  res_Pub :: bytes
  res_PublicCommitments :: "bytes list"
  res_Qual :: "nat list"
  res_Disqualified :: "nat list"

definition memberWeight :: "(nat \<Rightarrow> nat option) \<Rightarrow> nat \<Rightarrow> nat" where
  "memberWeight weightOf m = (case weightOf m of None \<Rightarrow> 1 | Some w \<Rightarrow> w)"

definition by_dealer :: "('f, 'g) curve \<Rightarrow> nat \<Rightarrow> public_dealing list \<Rightarrow> nat \<Rightarrow> 'g list option" where
  "by_dealer cv degree = foldl (\<lambda>f d.
     if length (pd_Commitments d) \<noteq> degree then f
     else case ParseCommitmentPoints cv (pd_Commitments d) of Inl _ \<Rightarrow> f
       | Inr pts \<Rightarrow> f(pd_Dealer d \<mapsto> pts)) Map.empty"

fun add_points :: "'g :: ab_group_add list \<Rightarrow> 'g" where
  "add_points [] = 0"
| "add_points [p] = p"
| "add_points (p # q # ps) = add_points ((p + q) # ps)"

text \<open>The compressed sums; an aggregate that is not a curve point fails the round.\<close>

fun compress_all :: "('f, 'g) curve \<Rightarrow> 'g list \<Rightarrow> bytes list result" where
  "compress_all cv [] = Inr []"
| "compress_all cv (v # vs) =
     (let b = SerializeCompressed cv v in
      if \<not> ValidCompressedPoint cv b then Inl (Error ''aggregate commitment is not a valid curve point'')
      else and_then (compress_all cv vs) (\<lambda>bs. Inr (b # bs)))"

definition FinalizePublicWeighted ::
    "('f, 'g :: ab_group_add) curve \<Rightarrow> nat list \<Rightarrow> nat \<Rightarrow> public_dealing list \<Rightarrow> nat list \<Rightarrow> (nat \<Rightarrow> nat option) \<Rightarrow> nat \<Rightarrow>
     public_result result" where
  "FinalizePublicWeighted cv members degree dealings disqualified weightOf minQualWeight =
    (if degree < 1 then Inl (Error ''invalid threshold'')
     else if members = [] then Inl (Error ''no members'')
     else
       let byDealer = by_dealer cv degree dealings;
           ok = (\<lambda>m. byDealer m \<noteq> None \<and> m \<notin> set disqualified);
           qual = filter ok (sort members);
           disqOut = filter (\<lambda>m. \<not> ok m) (sort members)
       in if sum_list (map (memberWeight weightOf) qual) < minQualWeight then Inl (Error ''QUAL weight too small'')
          else
            let V = map (\<lambda>j. add_points (map (\<lambda>i. the (byDealer i) ! j) qual)) [0..<degree]
            in and_then (compress_all cv V) (\<lambda>vbz.
              Inr \<lparr>res_Pub = vbz ! 0, res_PublicCommitments = vbz, res_Qual = qual, res_Disqualified = disqOut\<rparr>))"

fun range_keys :: "('f :: field, 'g :: ab_group_add) curve \<Rightarrow> 'g list \<Rightarrow> nat list \<Rightarrow> bytes list" where
  "range_keys cv comm [] = []"
| "range_keys cv comm (i # is) =
     SerializeCompressed cv (case SharePubKey cv comm i of None \<Rightarrow> 0 | Some p \<Rightarrow> p) # range_keys cv comm is"

definition ShareKeysCompressedRange ::
    "('f :: field, 'g :: ab_group_add) curve \<Rightarrow> bytes list \<Rightarrow> nat \<Rightarrow> nat \<Rightarrow> bytes list option" where
  "ShareKeysCompressedRange cv publicCommitments a b =
    (case ParseCommitmentPoints cv publicCommitments of Inl _ \<Rightarrow> None
     | Inr comm \<Rightarrow> Some (range_keys cv comm [(if a < 1 then 1 else a)..<b + 1]))"

subsection \<open>Proofs of correct decryption\<close>

definition dleqChallenge ::
    "('f :: field, 'g) curve \<Rightarrow> nat \<Rightarrow> 'g \<Rightarrow> 'g \<Rightarrow> 'g \<Rightarrow> 'g \<Rightarrow> 'g \<Rightarrow> 'f" where
  "dleqChallenge cv index a d y t1 t2 =
    fst (SetBytes cv (Sum256 cv (concat_parts
      [str_bytes ''limonata/encmempool/dkg/dleq/v1'', u64_bytes index, SerializeCompressed cv a, SerializeCompressed cv d,
       SerializeCompressed cv y, SerializeCompressed cv t1, SerializeCompressed cv t2])))"

text \<open>
  The nonce is the first hash, over a four-byte counter, that is a canonical non-zero scalar; the
  counter wraps around, so without such a hash the loop does not end (\<open>None\<close>).
\<close>

definition nonce_hash :: "('f :: field, 'g) curve \<Rightarrow> bytes \<Rightarrow> nat \<Rightarrow> 'f \<times> bool" where
  "nonce_hash cv pre ctr = SetBytes cv (Sum256 cv (pre @ rev (big_endian 4 ctr)))"

partial_function (option) nonce_loop :: "('f :: field, 'g) curve \<Rightarrow> bytes \<Rightarrow> nat \<Rightarrow> 'f option" where
  "nonce_loop cv pre ctr =
    (if \<not> snd (nonce_hash cv pre ctr) \<and> fst (nonce_hash cv pre ctr) \<noteq> 0 then Some (fst (nonce_hash cv pre ctr))
     else nonce_loop cv pre ((ctr + 1) mod 2 ^ 32))"

definition nonce_prefix :: "('f, 'g) curve \<Rightarrow> nat \<Rightarrow> 'f \<Rightarrow> 'g \<Rightarrow> 'g \<Rightarrow> 'g \<Rightarrow> bytes" where
  "nonce_prefix cv index x a d y = concat_parts
    [str_bytes ''limonata/encmempool/dkg/dleq-nonce/v1'', u64_bytes index, scalar_Bytes cv x,
     SerializeCompressed cv a, SerializeCompressed cv d, SerializeCompressed cv y]"

definition deriveDLEQNonce :: "('f :: field, 'g) curve \<Rightarrow> nat \<Rightarrow> 'f \<Rightarrow> 'g \<Rightarrow> 'g \<Rightarrow> 'g \<Rightarrow> 'f option" where
  "deriveDLEQNonce cv index x a d y = nonce_loop cv (nonce_prefix cv index x a d y) 0"

text \<open>\<open>None\<close> where the nonce derivation does not return.\<close>

definition ProveDecryptShare ::
    "('f :: field, 'g) curve \<Rightarrow> 'f key_share \<Rightarrow> ciphertext \<Rightarrow> (decrypt_share \<times> 'f dleq_proof) result option" where
  "ProveDecryptShare cv share ct =
    (case ComputeShare cv share ct of Inl e \<Rightarrow> Some (Inl e)
     | Inr ds \<Rightarrow>
       (case ParsePubKey cv (ct_A ct) of None \<Rightarrow> Some (Inl (Error ''malformed A''))
        | Some a \<Rightarrow>
          (case ParsePubKey cv (ds_D ds) of None \<Rightarrow> Some (Inl (Error ''malformed D''))
           | Some d \<Rightarrow>
             let y = ScalarBaseMult cv (Xi share) in
             (case deriveDLEQNonce cv (ks_Index share) (Xi share) a d y of None \<Rightarrow> None
              | Some k \<Rightarrow>
                let t1 = ScalarBaseMult cv k; t2 = ScalarMult cv k a;
                    c = dleqChallenge cv (ks_Index share) a d y t1 t2;
                    z = k + c * Xi share
                in Some (Inr (ds, \<lparr>dleq_C = c, dleq_Z = z\<rparr>))))))"

definition VerifyDecryptShare ::
    "('f :: field, 'g :: ab_group_add) curve \<Rightarrow> bytes \<Rightarrow> decrypt_share \<Rightarrow> 'g \<Rightarrow> 'f dleq_proof \<Rightarrow> bool" where
  "VerifyDecryptShare cv A ds y proof =
    (case ParsePubKey cv A of None \<Rightarrow> False
     | Some a \<Rightarrow>
       (case ParsePubKey cv (ds_D ds) of None \<Rightarrow> False
        | Some d \<Rightarrow>
          let negC = - dleq_C proof;
              t1 = ScalarBaseMult cv (dleq_Z proof) + ScalarMult cv negC y;
              t2 = ScalarMult cv (dleq_Z proof) a + ScalarMult cv negC d;
              want = dleqChallenge cv (ds_Index ds) a d y t1 t2
          in scalar_Bytes cv want = scalar_Bytes cv (dleq_C proof)))"

definition MarshalDLEQProof :: "('f, 'g) curve \<Rightarrow> 'f dleq_proof \<Rightarrow> bytes" where
  "MarshalDLEQProof cv p = scalar_Bytes cv (dleq_C p) @ scalar_Bytes cv (dleq_Z p)"

definition ParseDLEQProof :: "('f, 'g) curve \<Rightarrow> bytes \<Rightarrow> 'f dleq_proof result" where
  "ParseDLEQProof cv b =
    (if length b \<noteq> 64 then Inl (Error ''dleq proof must be 64 bytes'')
     else case SetBytes cv (take 32 b) of (c, over) \<Rightarrow>
       (case SetBytes cv (drop 32 b) of (z, over') \<Rightarrow>
          if over \<or> over' then Inl (Error ''dleq proof scalar is not canonical'')
          else Inr \<lparr>dleq_C = c, dleq_Z = z\<rparr>))"

subsection \<open>Recovery from verified shares\<close>

datatype recover_error = ErrInsufficientVerified | OtherRecoverError

text \<open>
  The loop over the partial shares: indices out of range or seen before are skipped, a
  pre-verified one is taken, any other is checked against its public key, from the cache when the
  cache entry parses; it stops at \<open>t\<close> good ones. \<open>preVerified\<close> and \<open>cachedKey\<close> are the callbacks.
\<close>

definition share_key ::
    "('f :: field, 'g :: ab_group_add) curve \<Rightarrow> 'g list \<Rightarrow> (nat \<Rightarrow> bytes) \<Rightarrow> nat \<Rightarrow> 'g option" where
  "share_key cv commitments cachedKey i =
    (case (if cachedKey i = [] then None else ParsePubKey cv (cachedKey i)) of
       Some p \<Rightarrow> Some p | None \<Rightarrow> SharePubKey cv commitments i)"

fun collect_good ::
    "('f :: field, 'g :: ab_group_add) curve \<Rightarrow> 'g list \<Rightarrow> bytes \<Rightarrow> nat \<Rightarrow> (nat \<Rightarrow> bytes) \<Rightarrow> (nat \<Rightarrow> bool) \<Rightarrow>
     decrypt_share list \<Rightarrow> (decrypt_share \<times> 'f dleq_proof) list \<Rightarrow> decrypt_share list" where
  "collect_good cv comm A t cachedKey preVerified good [] = good"
| "collect_good cv comm A t cachedKey preVerified good ((s, proof) # rest) =
     (if ds_Index s < 1 \<or> ds_Index s \<ge> 2 ^ 32 \<or> ds_Index s \<in> ds_Index ` set good
      then collect_good cv comm A t cachedKey preVerified good rest
      else if preVerified (ds_Index s) \<or>
        (case share_key cv comm cachedKey (ds_Index s) of None \<Rightarrow> False | Some y \<Rightarrow> VerifyDecryptShare cv A s y proof)
      then (if length good + 1 = t then good @ [s]
            else collect_good cv comm A t cachedKey preVerified (good @ [s]) rest)
      else collect_good cv comm A t cachedKey preVerified good rest)"

definition RecoverVerifiedWithKeys ::
    "('f :: field, 'g :: ab_group_add) curve \<Rightarrow> 'g list \<Rightarrow> bytes \<Rightarrow> nat \<Rightarrow> (decrypt_share \<times> 'f dleq_proof) list \<Rightarrow>
     (nat \<Rightarrow> bytes) \<Rightarrow> (nat \<Rightarrow> bool) \<Rightarrow> recover_error + 'g" where
  "RecoverVerifiedWithKeys cv commitments A t partials cachedKey preVerified =
    (if t < 1 then Inl OtherRecoverError
     else if commitments = [] then Inl OtherRecoverError
     else
       let good = collect_good cv commitments A t cachedKey preVerified [] partials in
       if length good < t then Inl ErrInsufficientVerified
       else case Recover cv good of Inl _ \<Rightarrow> Inl OtherRecoverError | Inr p \<Rightarrow> Inr p)"

subsection \<open>Sealed shares and complaints\<close>

definition EncryptShareTo :: "('f, 'g) curve \<Rightarrow> bytes \<Rightarrow> 'f \<Rightarrow> 'f \<Rightarrow> bytes \<Rightarrow> ciphertext result" where
  "EncryptShareTo cv memberEncPub share r nonce = EncryptWithR cv memberEncPub (scalar_Bytes cv share) r nonce"

definition DecryptShareFrom :: "('f, 'g) curve \<Rightarrow> 'f \<Rightarrow> nat \<Rightarrow> ciphertext \<Rightarrow> 'f result" where
  "DecryptShareFrom cv encPriv memberIndex ct =
    and_then (ComputeShare cv \<lparr>ks_Index = memberIndex, Xi = encPriv\<rparr> ct) (\<lambda>ds.
      case ParsePubKey cv (ds_D ds) of None \<Rightarrow> Inl (Error ''malformed D'')
      | Some spub \<Rightarrow>
        and_then (Decrypt cv spub ct) (\<lambda>plain.
          if length plain \<noteq> 32 then Inl (Error ''bad share plaintext length'')
          else case SetBytes cv plain of (x, over) \<Rightarrow>
            if over then Inl (Error ''decrypted share is not a canonical scalar'') else Inr x))"

text \<open>The answer is (the dealer cheated, the proof is valid).\<close>

definition VerifyJustifiedComplaint ::
    "('f :: field, 'g :: ab_group_add) curve \<Rightarrow> nat \<Rightarrow> bytes \<Rightarrow> bytes list \<Rightarrow> bytes \<Rightarrow> bytes \<Rightarrow> bytes \<Rightarrow> bytes \<Rightarrow> bytes \<Rightarrow>
     bool \<times> bool" where
  "VerifyJustifiedComplaint cv evalPoint accuserEncPub dealerCommitments encA encNonce encBody sharedPoint dleqProof =
    (if ParsePubKey cv encA = None then (True, True)
     else if length encNonce \<noteq> NonceSize then (True, True)
     else case ParsePubKey cv accuserEncPub of None \<Rightarrow> (False, False)
       | Some y \<Rightarrow>
         (case ParseDLEQProof cv dleqProof of Inl _ \<Rightarrow> (False, False)
          | Inr proof \<Rightarrow>
            if \<not> VerifyDecryptShare cv encA \<lparr>ds_Index = evalPoint, ds_D = sharedPoint\<rparr> y proof then (False, False)
            else case ParsePubKey cv sharedPoint of None \<Rightarrow> (False, True)
              | Some spt \<Rightarrow>
                (case Decrypt cv spt \<lparr>ct_A = encA, ct_Nonce = encNonce, ct_Body = encBody\<rparr> of Inl _ \<Rightarrow> (True, True)
                 | Inr plain \<Rightarrow>
                   if length plain \<noteq> 32 then (True, True)
                   else case ParseCommitmentPoints cv dealerCommitments of Inl _ \<Rightarrow> (True, True)
                     | Inr commitments \<Rightarrow>
                       (case SetBytes cv plain of (x, over) \<Rightarrow>
                          if over then (True, True)
                          else if VerifyShare cv commitments evalPoint x then (False, True)
                          else (True, True)))))"

subsection \<open>Polynomials as coefficient lists\<close>

text \<open>The constant term comes first.\<close>

fun peval :: "'f :: comm_ring_1 list \<Rightarrow> 'f \<Rightarrow> 'f" where
  "peval [] x = 0"
| "peval (c # cs) x = c + x * peval cs x"

fun padd :: "'f :: comm_ring_1 list \<Rightarrow> 'f list \<Rightarrow> 'f list" where
  "padd [] qs = qs"
| "padd ps [] = ps"
| "padd (p # ps) (q # qs) = (p + q) # padd ps qs"

definition pscale :: "'f :: comm_ring_1 \<Rightarrow> 'f list \<Rightarrow> 'f list" where
  "pscale a ps = map ((*) a) ps"

lemma peval_padd [simp]: "peval (padd ps qs) x = peval ps x + peval qs x"
  by (induction ps qs rule: padd.induct) (auto simp: algebra_simps)

lemma length_padd [simp]: "length (padd ps qs) = max (length ps) (length qs)"
  by (induction ps qs rule: padd.induct) auto

lemma peval_pscale [simp]: "peval (pscale a ps) x = a * peval ps x"
  by (induction ps) (auto simp: pscale_def algebra_simps)

lemma length_pscale [simp]: "length (pscale a ps) = length ps"
  by (simp add: pscale_def)

lemma peval_append: "peval (ps @ qs) x = peval ps x + x ^ length ps * peval qs x"
  by (induction ps) (auto simp: algebra_simps)

text \<open>Division by a linear factor: \<open>p(x) - p(r) = (x - r) q(x)\<close>.\<close>

fun pquot :: "'f :: comm_ring_1 \<Rightarrow> 'f list \<Rightarrow> 'f list" where
  "pquot r [] = []"
| "pquot r (c # cs) = padd cs (pscale r (pquot r cs))"

lemma length_pquot: "length (pquot r cs) = length cs - 1"
  by (induction cs) auto

lemma pquot: "peval cs x - peval cs r = (x - r) * peval (pquot r cs) x"
proof (induction cs)
  case (Cons c cs)
  have "peval (c # cs) x - peval (c # cs) r = (x - r) * peval cs x + r * (peval cs x - peval cs r)"
    by (simp add: algebra_simps)
  also have "\<dots> = (x - r) * peval (pquot r (c # cs)) x"
    unfolding Cons.IH by (simp add: algebra_simps)
  finally show ?case .
qed simp

text \<open>A polynomial with as many roots as coefficients is zero everywhere.\<close>

lemma peval_zero:
  fixes cs :: "'f :: field list"
  assumes "distinct rs" and "length cs \<le> length rs" and "\<And>r. r \<in> set rs \<Longrightarrow> peval cs r = 0"
  shows "peval cs x = 0"
  using assms
proof (induction rs arbitrary: cs)
  case (Cons r rs)
  have r: "peval cs r = 0" using Cons.prems(3) by simp
  have "peval (pquot r cs) y = 0" if "y \<in> set rs" for y
  proof -
    have "y \<noteq> r" "peval cs y = 0" using Cons.prems that by auto
    then show ?thesis using pquot [of cs y r] r by simp
  qed
  moreover have "length (pquot r cs) \<le> length rs" using Cons.prems(2) by (simp add: length_pquot)
  ultimately have "peval (pquot r cs) x = 0" using Cons.IH [of "pquot r cs"] Cons.prems(1) by simp
  then show ?case using pquot [of cs x r] r by simp
qed simp

subsection \<open>Interpolation at zero\<close>

text \<open>\<open>\<Prod>\<^sub>j (x\<^sub>j - x)\<close> over the points other than \<open>i\<close>.\<close>

definition factors :: "'f :: comm_ring_1 \<Rightarrow> 'f list \<Rightarrow> 'f \<Rightarrow> 'f" where
  "factors i xs x = (\<Prod>j\<leftarrow>filter (\<lambda>j. j \<noteq> i) xs. j - x)"

definition lagrange0 :: "'f :: field \<Rightarrow> 'f list \<Rightarrow> 'f" where
  "lagrange0 i xs = factors i xs 0 * inverse (factors i xs i)"

lemma poly_of_factors:
  "\<exists>ps. length ps = length xs + 1 \<and> (\<forall>x. peval ps x = (\<Prod>j\<leftarrow>xs. j - x))" for xs :: "'f :: comm_ring_1 list"
proof (induction xs)
  case Nil
  show ?case by (rule exI [of _ "[1]"]) simp
next
  case (Cons a xs)
  then obtain ps where ps: "length ps = length xs + 1" "\<And>x. peval ps x = (\<Prod>j\<leftarrow>xs. j - x)" by blast
  let ?qs = "padd (pscale a ps) (0 # pscale (-1) ps)"
  have "peval ?qs x = (\<Prod>j\<leftarrow>a # xs. j - x)" for x
    using ps(2) [of x] by (simp add: algebra_simps)
  then show ?case using ps(1) by (intro exI [of _ ?qs]) simp
qed

lemma factors_other: "j \<in> set xs \<Longrightarrow> j \<noteq> i \<Longrightarrow> factors i xs j = 0" for i :: "'f :: field"
  by (auto simp: factors_def prod_list_zero_iff)

lemma factors_self: "distinct xs \<Longrightarrow> factors i xs i \<noteq> 0" for i :: "'f :: field"
  by (auto simp: factors_def prod_list_zero_iff)

lemma length_filter_less: "i \<in> set xs \<Longrightarrow> length (filter (\<lambda>j. j \<noteq> i) xs) < length xs"
  by (rule length_filter_less) auto

text \<open>A sum of scaled polynomials is one.\<close>

lemma poly_of_sum:
  assumes "\<And>i. i \<in> set xs \<Longrightarrow> \<exists>ps. length ps \<le> n \<and> (\<forall>x. peval ps x = g i x)"
  shows "\<exists>ps. length ps \<le> n \<and> (\<forall>x. peval ps x = (\<Sum>i\<leftarrow>xs. g i x))"
  using assms
proof (induction xs)
  case Nil
  show ?case by (rule exI [of _ "[]"]) simp
next
  case (Cons a xs)
  then obtain ps qs where "length ps \<le> n" "\<And>x. peval ps x = g a x"
    "length qs \<le> n" "\<And>x. peval qs x = (\<Sum>i\<leftarrow>xs. g i x)" by (metis list.set_intros)
  then show ?case by (intro exI [of _ "padd ps qs"]) simp
qed

lemma sum_list_single:
  fixes h :: "'a \<Rightarrow> 'b :: comm_monoid_add"
  assumes "distinct xs" "y \<in> set xs" "\<And>i. i \<in> set xs \<Longrightarrow> i \<noteq> y \<Longrightarrow> h i = 0"
  shows "(\<Sum>i\<leftarrow>xs. h i) = h y"
proof -
  have "sum h {y} = sum h (set xs)" by (rule sum.mono_neutral_left) (use assms in auto)
  with assms(1) show ?thesis by (simp add: sum_list_distinct_conv_sum_set)
qed

lemma lagrange_interpolation:
  fixes cs :: "'f :: field list"
  assumes "distinct xs" and "length cs \<le> length xs"
  shows "(\<Sum>i\<leftarrow>xs. lagrange0 i xs * peval cs i) = peval cs 0"
proof -
  let ?g = "\<lambda>i x. peval cs i * inverse (factors i xs i) * factors i xs x"
  have "\<exists>ps. length ps \<le> length xs \<and> (\<forall>x. peval ps x = ?g i x)" if "i \<in> set xs" for i
  proof -
    obtain ps where "length ps = length (filter (\<lambda>j. j \<noteq> i) xs) + 1" "\<And>x. peval ps x = factors i xs x"
      using poly_of_factors [of "filter (\<lambda>j. j \<noteq> i) xs"] unfolding factors_def by blast
    with length_filter_less [OF that] show ?thesis
      by (intro exI [of _ "pscale (peval cs i * inverse (factors i xs i)) ps"]) simp
  qed
  then obtain ps where ps: "length ps \<le> length xs" "\<And>x. peval ps x = (\<Sum>i\<leftarrow>xs. ?g i x)"
    using poly_of_sum [of xs "length xs" ?g] by blast
  have root: "peval (padd ps (pscale (-1) cs)) y = 0" if y: "y \<in> set xs" for y
  proof -
    have "(\<Sum>i\<leftarrow>xs. ?g i y) = ?g y y"
      by (rule sum_list_single [OF assms(1) y]) (simp add: factors_other [OF y])
    then show ?thesis using ps(2) [of y] factors_self [OF assms(1), of y] by simp
  qed
  have "length (padd ps (pscale (-1) cs)) \<le> length xs" using ps(1) assms(2) by simp
  then have "peval (padd ps (pscale (-1) cs)) 0 = 0" by (rule peval_zero [OF assms(1) _ root])
  then have "peval cs 0 = (\<Sum>i\<leftarrow>xs. ?g i 0)" using ps(2) [of 0] by simp
  also have "\<dots> = (\<Sum>i\<leftarrow>xs. lagrange0 i xs * peval cs i)"
    by (simp add: lagrange0_def algebra_simps)
  finally show ?thesis by simp
qed

subsection \<open>The code's polynomials\<close>

lemma horner_eq: "horner z acc cs = acc * z ^ length cs + peval (rev cs) z"
  by (induction z acc cs rule: horner.induct) (simp_all add: peval_append algebra_simps)

lemma evalPoly_eq: "evalPoly cs z = peval cs (scalarFromUint z)"
proof (cases "rev cs")
  case (Cons c rest)
  then have "cs = rev rest @ [c]" by (metis rev.simps(2) rev_rev_ident)
  with Cons show ?thesis by (simp add: evalPoly_def horner_eq peval_append)
qed (simp add: evalPoly_def)

lemma scalarFromUint_id: "v < 2 ^ 32 \<Longrightarrow> scalarFromUint v = of_nat v"
  by (simp add: scalarFromUint_def)

lemma scalarFromUint_1 [simp]: "scalarFromUint (Suc 0) = 1"
  by (simp add: scalarFromUint_def)

lemma lagrange_fold:
  "foldl (\<lambda>(num, den) j. if j = i then (num, den)
       else (num * scalarFromUint j, den * (scalarFromUint j + (- scalarFromUint i)))) (a, b) js =
    (a * (\<Prod>j\<leftarrow>filter (\<lambda>j. j \<noteq> i) js. scalarFromUint j),
     b * (\<Prod>j\<leftarrow>filter (\<lambda>j. j \<noteq> i) js. scalarFromUint j - scalarFromUint i)) "
  by (induction js arbitrary: a b) (auto simp: algebra_simps)

lemma filter_inj_map: "inj_on f (insert i (set js)) \<Longrightarrow> filter (\<lambda>x. x \<noteq> f i) (map f js) = map f (filter (\<lambda>j. j \<noteq> i) js)"
  by (induction js) (auto simp: inj_on_def)

lemma lagrangeAtZero_eq:
  assumes "inj_on (scalarFromUint :: nat \<Rightarrow> 'f) (insert i (set js))"
  shows "lagrangeAtZero i js = lagrange0 (scalarFromUint i) (map scalarFromUint js :: 'f :: field list)"
  by (simp add: lagrangeAtZero_def lagrange_fold lagrange0_def factors_def filter_inj_map [OF assms] o_def scalarFromUint_1)

subsection \<open>What the code relies on\<close>

text \<open>
  The group laws; a point other than infinity parses back from its serialisation, infinity has
  none that parses; the order of the group exceeds 32 bits; a scalar prints as 32 bytes that read
  back; and opening a sealed message gives it back.
\<close>

locale secp256k1 =
  fixes cv :: "('f :: field, 'g :: ab_group_add) curve"
  assumes smult_add: "ScalarMult cv (x + y) p = ScalarMult cv x p + ScalarMult cv y p"
    and smult_point: "ScalarMult cv x (p + q) = ScalarMult cv x p + ScalarMult cv x q"
    and smult_mult: "ScalarMult cv x (ScalarMult cv y p) = ScalarMult cv (x * y) p"
    and smult_one: "ScalarMult cv 1 p = p"
    and parse_ser: "p \<noteq> 0 \<Longrightarrow> ParsePubKey cv (SerializeCompressed cv p) = Some p"
    and parse_inf: "ParsePubKey cv (SerializeCompressed cv 0) = None"
    and parse_point: "ParsePubKey cv b = Some p \<Longrightarrow> p \<noteq> 0"
    and base: "Base cv \<noteq> 0"
    and small: "0 < n \<Longrightarrow> n < 2 ^ 32 \<Longrightarrow> of_nat n \<noteq> (0 :: 'f)"
    and scalar_read: "SetBytes cv (scalar_Bytes cv x) = (x, False)"
    and scalar_len: "length (scalar_Bytes cv x) = 32"
    and gcm: "gcm_Open cv key nonce (gcm_Seal cv key nonce msg) = Some msg"
begin

lemma smult_0 [simp]: "ScalarMult cv 0 p = 0"
  using smult_add [of 0 0 p] by simp

lemma smult_inf [simp]: "ScalarMult cv x 0 = 0"
  using smult_point [of x 0 0] by simp

lemma smult_uminus: "ScalarMult cv (- x) p = - ScalarMult cv x p"
  using smult_add [of x "- x" p] by (simp add: eq_neg_iff_add_eq_0 add.commute)

lemma smult_diff: "ScalarMult cv (x - y) p = ScalarMult cv x p - ScalarMult cv y p"
  using smult_add [of x "- y" p] by (simp add: smult_uminus)

lemma smult_eq_0: "ScalarMult cv x p = 0 \<longleftrightarrow> x = 0 \<or> p = 0"
proof
  assume e: "ScalarMult cv x p = 0"
  show "x = 0 \<or> p = 0"
  proof (rule ccontr)
    assume n: "\<not> (x = 0 \<or> p = 0)"
    have "p = ScalarMult cv (inverse x * x) p" using n by (simp add: smult_one)
    also have "\<dots> = ScalarMult cv (inverse x) (ScalarMult cv x p)" by (simp add: smult_mult)
    finally show False using e n by simp
  qed
qed auto

lemma smult_inj: "p \<noteq> 0 \<Longrightarrow> ScalarMult cv x p = ScalarMult cv y p \<longleftrightarrow> x = y"
  using smult_eq_0 [of "x - y" p] by (simp add: smult_diff)

lemma smult_sum: "ScalarMult cv (\<Sum>i\<leftarrow>xs. h i) p = (\<Sum>i\<leftarrow>xs. ScalarMult cv (h i) p)"
  by (induction xs) (simp_all add: smult_add)

lemma ser_inj: "SerializeCompressed cv p = SerializeCompressed cv q \<longleftrightarrow> p = q"
  using parse_ser [of p] parse_ser [of q] parse_inf by (metis option.inject option.distinct(1))

lemma scalar_inj: "scalar_Bytes cv x = scalar_Bytes cv y \<longleftrightarrow> x = y"
  by (metis fst_conv scalar_read)

lemma index_inj: "inj_on (scalarFromUint :: nat \<Rightarrow> 'f) {..<2 ^ 32}"
proof (rule inj_onI)
  have *: "i = j" if "i \<le> j" "j < 2 ^ 32" "(of_nat i :: 'f) = of_nat j" for i j
  proof (rule ccontr)
    assume "i \<noteq> j"
    with that have "0 < j - i" "j - i < 2 ^ 32" by auto
    from small [OF this] that show False by (simp add: of_nat_diff)
  qed
  fix i j :: nat assume "i \<in> {..<2 ^ 32}" "j \<in> {..<2 ^ 32}" "(scalarFromUint i :: 'f) = scalarFromUint j"
  then show "i = j" using * [of i j] * [of j i] by (cases "i \<le> j") (auto simp: scalarFromUint_id)
qed

text \<open>Interpolation in the exponent.\<close>

lemma recover_terms_ok:
  assumes "\<And>s. s \<in> set ss \<Longrightarrow> ParsePubKey cv (ds_D s) = Some (d s)"
  shows "recover_terms cv js acc ss = Inr (if ss = [] then acc else
    Some ((case acc of None \<Rightarrow> 0 | Some p \<Rightarrow> p) + (\<Sum>s\<leftarrow>ss. ScalarMult cv (lagrangeAtZero (ds_Index s) js) (d s))))"
  using assms
  by (induction ss arbitrary: acc) (auto simp: Let_def add.assoc split: option.splits)

lemma Recover_shares:
  assumes d: "distinct (map ds_Index ss)" and rng: "\<And>s. s \<in> set ss \<Longrightarrow> ds_Index s < 2 ^ 32"
    and len: "length cs \<le> length ss" and ne: "ss \<noteq> []"
    and D: "\<And>s. s \<in> set ss \<Longrightarrow> ParsePubKey cv (ds_D s) = Some (ScalarMult cv (evalPoly cs (ds_Index s)) a)"
  shows "Recover cv ss = Inr (ScalarMult cv (peval cs 0) a)"
proof -
  let ?js = "map ds_Index ss" and ?sc = "scalarFromUint :: nat \<Rightarrow> 'f"
  have inj: "inj_on ?sc (set ?js)"
    by (rule inj_on_subset [OF index_inj]) (use rng in auto)
  have dist: "distinct (map ?sc ?js)" unfolding distinct_map [of ?sc ?js] using d inj by blast
  have lag: "lagrangeAtZero (ds_Index s) ?js = lagrange0 (?sc (ds_Index s)) (map ?sc ?js)" if "s \<in> set ss" for s
    using that by (intro lagrangeAtZero_eq) (simp add: insert_absorb inj [simplified])
  have "(\<Sum>s\<leftarrow>ss. ScalarMult cv (lagrangeAtZero (ds_Index s) ?js) (ScalarMult cv (evalPoly cs (ds_Index s)) a)) =
      (\<Sum>s\<leftarrow>ss. ScalarMult cv (lagrange0 (?sc (ds_Index s)) (map ?sc ?js) * peval cs (?sc (ds_Index s))) a)"
    by (rule arg_cong [of _ _ sum_list], rule map_cong [OF refl]) (simp add: lag smult_mult evalPoly_eq)
  also have "\<dots> = ScalarMult cv (\<Sum>x\<leftarrow>map ?sc ?js. lagrange0 x (map ?sc ?js) * peval cs x) a"
    by (simp add: smult_sum o_def)
  also have "\<dots> = ScalarMult cv (peval cs 0) a"
    using len by (subst lagrange_interpolation [OF dist]) simp_all
  finally show ?thesis using ne recover_terms_ok [OF D, of ss ?js None] by (simp add: Recover_def)
qed

text \<open>The public key of a share, from the commitments to the coefficients.\<close>

abbreviation commit_to :: "'f list \<Rightarrow> 'g list" where
  "commit_to cs \<equiv> map (ScalarBaseMult cv) cs"

lemma horner_points_eq:
  "horner_points cv z (ScalarMult cv acc p) (map (\<lambda>c. ScalarMult cv c p) cs) = ScalarMult cv (horner z acc cs) p"
  by (induction cs arbitrary: acc) (simp_all add: smult_mult smult_add [symmetric] mult.commute)

lemma SharePubKey_commit: "cs \<noteq> [] \<Longrightarrow> SharePubKey cv (commit_to cs) i = Some (ScalarBaseMult cv (evalPoly cs i))"
proof -
  assume "cs \<noteq> []"
  then obtain c rest where r: "rev cs = c # rest" by (cases "rev cs") auto
  have "rev (commit_to cs) = commit_to (c # rest)" by (simp add: rev_map r)
  then show ?thesis by (simp add: SharePubKey_def evalPoly_def r horner_points_eq)
qed

lemma VerifyShare_iff: "cs \<noteq> [] \<Longrightarrow> VerifyShare cv (commit_to cs) i x \<longleftrightarrow> x = evalPoly cs i"
  by (simp add: VerifyShare_def SharePubKey_commit ser_inj smult_inj base)

lemma parse_commitments:
  "0 \<notin> set ps \<Longrightarrow> ParseCommitmentPoints cv (map (SerializeCompressed cv) ps) = Inr ps"
  by (induction ps) (auto simp: parse_ser)

subsubsection \<open>The proof of correct decryption\<close>

lemma dleq_accepts:
  assumes "ParsePubKey cv A = Some a" and "ParsePubKey cv (ds_D ds) = Some (ScalarMult cv x a)"
    and y: "y = ScalarBaseMult cv x"
    and c: "c = dleqChallenge cv (ds_Index ds) a (ScalarMult cv x a) y (ScalarBaseMult cv k) (ScalarMult cv k a)"
  shows "VerifyDecryptShare cv A ds y \<lparr>dleq_C = c, dleq_Z = k + c * x\<rparr>"
proof -
  have "ScalarMult cv (k + c * x) p + ScalarMult cv (- c) (ScalarMult cv x p) = ScalarMult cv k p" for p
    by (simp add: smult_mult smult_add [symmetric])
  with assms show ?thesis by (simp add: VerifyDecryptShare_def Let_def)
qed

lemma dleq_extract:
  assumes "c \<noteq> c'"
    and "ScalarMult cv z p + ScalarMult cv (- c) q = ScalarMult cv z' p + ScalarMult cv (- c') q"
  shows "q = ScalarMult cv ((z - z') * inverse (c - c')) p"
proof -
  have "ScalarMult cv (z - z') p = ScalarMult cv (c - c') q"
    using assms(2) by (simp add: smult_diff smult_uminus algebra_simps)
  then have "ScalarMult cv (inverse (c - c')) (ScalarMult cv (z - z') p) = q"
    using assms(1) by (simp add: smult_mult smult_one)
  then show ?thesis by (simp add: smult_mult mult.commute)
qed

lemma prove_parts:
  assumes "ProveDecryptShare cv s ct = Some (Inr (ds, proof))"
  shows "\<exists>a k. ParsePubKey cv (ct_A ct) = Some a \<and> ds_Index ds = ks_Index s \<and>
    ParsePubKey cv (ds_D ds) = Some (ScalarMult cv (Xi s) a) \<and>
    proof = \<lparr>dleq_C = dleqChallenge cv (ds_Index ds) a (ScalarMult cv (Xi s) a) (ScalarBaseMult cv (Xi s))
        (ScalarBaseMult cv k) (ScalarMult cv k a),
      dleq_Z = k + dleqChallenge cv (ds_Index ds) a (ScalarMult cv (Xi s) a) (ScalarBaseMult cv (Xi s))
        (ScalarBaseMult cv k) (ScalarMult cv k a) * Xi s\<rparr>"
proof -
  obtain a where a: "ParsePubKey cv (ct_A ct) = Some a"
    and ds: "ds = \<lparr>ds_Index = ks_Index s, ds_D = SerializeCompressed cv (ScalarMult cv (Xi s) a)\<rparr>"
    using assms by (auto simp: ProveDecryptShare_def ComputeShare_def Let_def split: option.splits)
  have "ScalarMult cv (Xi s) a \<noteq> 0"
    using assms a parse_inf by (auto simp: ProveDecryptShare_def ComputeShare_def Let_def split: option.splits)
  then have "ParsePubKey cv (ds_D ds) = Some (ScalarMult cv (Xi s) a)" by (simp add: ds parse_ser)
  with assms a ds show ?thesis
    by (auto simp: ProveDecryptShare_def ComputeShare_def Let_def split: option.splits)
qed

lemma prove_verifies:
  assumes "ProveDecryptShare cv s ct = Some (Inr (ds, proof))"
  shows "VerifyDecryptShare cv (ct_A ct) ds (ScalarBaseMult cv (Xi s)) proof"
  using prove_parts [OF assms] dleq_accepts by blast

lemma dleq_roundtrip: "ParseDLEQProof cv (MarshalDLEQProof cv p) = Inr p"
  by (simp add: ParseDLEQProof_def MarshalDLEQProof_def scalar_len scalar_read)

end

subsection \<open>Which partial shares recovery uses\<close>

definition takes ::
    "('f :: field, 'g :: ab_group_add) curve \<Rightarrow> 'g list \<Rightarrow> bytes \<Rightarrow> (nat \<Rightarrow> bytes) \<Rightarrow> (nat \<Rightarrow> bool) \<Rightarrow>
     decrypt_share \<times> 'f dleq_proof \<Rightarrow> bool" where
  "takes cv comm A cachedKey preVerified = (\<lambda>(s, proof).
     1 \<le> ds_Index s \<and> ds_Index s < 2 ^ 32 \<and> (preVerified (ds_Index s) \<or>
      (case share_key cv comm cachedKey (ds_Index s) of None \<Rightarrow> False | Some y \<Rightarrow> VerifyDecryptShare cv A s y proof)))"

lemma collect_good_length: "length good < t \<Longrightarrow> length (collect_good cv comm A t ck pv good ps) \<le> t"
  by (induction cv comm A t ck pv good ps rule: collect_good.induct) auto

lemma collect_good_distinct:
  "distinct (map ds_Index good) \<Longrightarrow> distinct (map ds_Index (collect_good cv comm A t ck pv good ps))"
  by (induction cv comm A t ck pv good ps rule: collect_good.induct) auto

lemma takes_Pair: "\<not> (ds_Index s < 1 \<or> ds_Index s \<ge> 2 ^ 32 \<or> ds_Index s \<in> X) \<Longrightarrow>
    takes cv comm A ck pv (s, pf) \<longleftrightarrow> pv (ds_Index s) \<or>
      (case share_key cv comm ck (ds_Index s) of None \<Rightarrow> False | Some y \<Rightarrow> VerifyDecryptShare cv A s y pf)"
  by (simp add: takes_def)

lemma collect_good_taken:
  "s \<in> set (collect_good cv comm A t ck pv good ps) \<Longrightarrow>
    s \<in> set good \<or> (\<exists>p. (s, p) \<in> set ps \<and> takes cv comm A ck pv (s, p))"
proof (induction cv comm A t ck pv good ps rule: collect_good.induct)
  case (2 cv comm A t ck pv good x pf rest)
  show ?case
  proof (cases "ds_Index x < 1 \<or> ds_Index x \<ge> 2 ^ 32 \<or> ds_Index x \<in> ds_Index ` set good")
    case True
    with "2.IH"(1) [OF True] "2.prems" show ?thesis by auto
  next
    case False
    show ?thesis
    proof (cases "takes cv comm A ck pv (x, pf)")
      case True
      note t = True [unfolded takes_Pair [OF False]]
      show ?thesis using "2.IH"(2) [OF False t] "2.prems" t False True by (auto split: if_splits)
    next
      case no: False
      note t = no [unfolded takes_Pair [OF False]]
      show ?thesis using "2.IH"(3) [OF False t] "2.prems" t False by auto
    qed
  qed
qed simp

lemma collect_good_keeps: "set good \<subseteq> set (collect_good cv comm A t ck pv good ps)"
  by (induction cv comm A t ck pv good ps rule: collect_good.induct) auto

lemma collect_good_all:
  "(s, p) \<in> set ps \<Longrightarrow> takes cv comm A ck pv (s, p) \<Longrightarrow> length (collect_good cv comm A t ck pv good ps) < t \<Longrightarrow>
    ds_Index s \<in> ds_Index ` set (collect_good cv comm A t ck pv good ps)"
proof (induction cv comm A t ck pv good ps rule: collect_good.induct)
  case (2 cv comm A t ck pv good x pf rest)
  show ?case
  proof (cases "ds_Index x < 1 \<or> ds_Index x \<ge> 2 ^ 32 \<or> ds_Index x \<in> ds_Index ` set good")
    case True
    then have r: "collect_good cv comm A t ck pv good ((x, pf) # rest) = collect_good cv comm A t ck pv good rest" by simp
    show ?thesis
    proof (cases "(s, p) \<in> set rest")
      case True
      with "2.IH"(1) [OF \<open>_ \<or> _\<close>] "2.prems" show ?thesis unfolding r by blast
    next
      case False
      with "2.prems"(1,2) \<open>_ \<or> _\<close> have "ds_Index s \<in> ds_Index ` set good" by (auto simp: takes_def)
      then show ?thesis unfolding r using collect_good_keeps [of good cv comm A t ck pv rest] by blast
    qed
  next
    case False
    show ?thesis
    proof (cases "takes cv comm A ck pv (x, pf)")
      case True
      note t = True [unfolded takes_Pair [OF False]]
      have l: "length good + 1 \<noteq> t" using "2.prems"(3) False t by auto
      then have r: "collect_good cv comm A t ck pv good ((x, pf) # rest) = collect_good cv comm A t ck pv (good @ [x]) rest"
        using False t by simp
      show ?thesis
      proof (cases "(s, p) \<in> set rest")
        case True
        with "2.IH"(2) [OF False t l] "2.prems" show ?thesis unfolding r by blast
      next
        case no: False
        with "2.prems"(1) have "s \<in> set (good @ [x])" by simp
        then show ?thesis unfolding r using collect_good_keeps [of "good @ [x]" cv comm A t ck pv rest] by blast
      qed
    next
      case no: False
      note t = no [unfolded takes_Pair [OF False]]
      have r: "collect_good cv comm A t ck pv good ((x, pf) # rest) = collect_good cv comm A t ck pv good rest"
        using False t by simp
      have "(s, p) \<in> set rest" using "2.prems"(1,2) no by auto
      with "2.IH"(3) [OF False t] "2.prems" show ?thesis unfolding r by blast
    qed
  qed
qed simp

text \<open>With \<open>t\<close> different acceptable indices among the partial shares, exactly \<open>t\<close> shares are used.\<close>

lemma collect_good_enough:
  assumes "0 < t" and "t \<le> card {ds_Index s |s p. (s, p) \<in> set ps \<and> takes cv comm A ck pv (s, p)}"
  shows "length (collect_good cv comm A t ck pv [] ps) = t"
proof -
  let ?r = "collect_good cv comm A t ck pv [] ps"
  let ?I = "{ds_Index s |s p. (s, p) \<in> set ps \<and> takes cv comm A ck pv (s, p)}"
  have "?I \<subseteq> ds_Index ` set ?r" if "length ?r < t"
    using collect_good_all [of _ _ ps cv comm A ck pv t "[]"] that by blast
  then have "card ?I \<le> length ?r" if "length ?r < t"
    using that card_mono [of "ds_Index ` set ?r" ?I] card_length [of "map ds_Index ?r"] by fastforce
  moreover have "length ?r \<le> t" by (rule collect_good_length) (use assms(1) in simp)
  ultimately show ?thesis using assms(2) by linarith
qed

subsection \<open>The nonce loop\<close>

lemma nonce_loop_skip:
  assumes "\<And>j. j < d \<Longrightarrow> snd (nonce_hash cv pre ((c + j) mod 2 ^ 32)) \<or> fst (nonce_hash cv pre ((c + j) mod 2 ^ 32)) = 0"
    and "c < 2 ^ 32"
  shows "nonce_loop cv pre c = nonce_loop cv pre ((c + d) mod 2 ^ 32)"
  using assms(1)
proof (induction d)
  case (Suc d)
  have "nonce_loop cv pre ((c + d) mod 2 ^ 32) = nonce_loop cv pre (((c + d) mod 2 ^ 32 + 1) mod 2 ^ 32)"
    using Suc.prems [of d] by (subst nonce_loop.simps) auto
  also have "((c + d) mod 2 ^ 32 + 1) mod 2 ^ 32 = (c + Suc d) mod (2 ^ 32 :: nat)"
    by (simp add: mod_Suc_eq)
  finally show ?case using Suc by simp
qed (use assms(2) in simp)

lemma nonce_loop_returns:
  assumes "ctr < 2 ^ 32" and "\<not> snd (nonce_hash cv pre ctr)" and "fst (nonce_hash cv pre ctr) \<noteq> 0"
  shows "\<exists>k. nonce_loop cv pre 0 = Some k \<and> k \<noteq> 0"
proof -
  define good where "good = (\<lambda>c. \<not> snd (nonce_hash cv pre c) \<and> fst (nonce_hash cv pre c) \<noteq> 0)"
  define d where "d = (LEAST c. good c)"
  have g: "good d" unfolding d_def by (rule LeastI [of good ctr]) (simp add: good_def assms)
  have "d \<le> ctr" unfolding d_def by (rule Least_le) (simp add: good_def assms)
  then have d: "d < 2 ^ 32" using assms(1) by simp
  have "\<not> good j" if "j < d" for j using that not_less_Least unfolding d_def by blast
  then have "nonce_loop cv pre 0 = nonce_loop cv pre d"
    using nonce_loop_skip [of d cv pre 0] d by (auto simp: good_def)
  also have "\<dots> = Some (fst (nonce_hash cv pre d))"
    using g by (subst nonce_loop.simps) (simp add: good_def)
  finally show ?thesis using g by (auto simp: good_def)
qed

subsection \<open>The key a round installs\<close>

lemma peval_sum: "peval cs x = (\<Sum>j<length cs. cs ! j * x ^ j)"
proof (induction cs)
  case (Cons c cs)
  have "(\<Sum>j<Suc (length cs). (c # cs) ! j * x ^ j) = c + (\<Sum>j<length cs. cs ! j * x ^ Suc j)"
    by (subst sum.lessThan_Suc_shift) simp
  then show ?case by (simp add: Cons sum_distrib_left algebra_simps)
qed simp

lemma peval_sum_polys:
  "(\<And>i. i \<in> set qs \<Longrightarrow> length (f i) = t) \<Longrightarrow>
    peval (map (\<lambda>j. \<Sum>i\<leftarrow>qs. f i ! j) [0..<t]) x = (\<Sum>i\<leftarrow>qs. peval (f i) x)"
proof (induction qs)
  case Nil
  show ?case by (simp add: peval_sum)
next
  case (Cons a qs)
  have "peval (map (\<lambda>j. \<Sum>i\<leftarrow>a # qs. f i ! j) [0..<t]) x = (\<Sum>j<t. f a ! j * x ^ j) + (\<Sum>j<t. (\<Sum>i\<leftarrow>qs. f i ! j) * x ^ j)"
    by (simp add: peval_sum sum.distrib [symmetric] algebra_simps)
  with Cons show ?case by (simp add: peval_sum)
qed

lemma add_points_eq: "add_points ps = sum_list ps"
  by (induction ps rule: add_points.induct) (simp_all add: add.assoc)

lemma compress_all_ok:
  "compress_all cv vs = Inr bs \<Longrightarrow> bs = map (SerializeCompressed cv) vs \<and>
    (\<forall>v\<in>set vs. ParsePubKey cv (SerializeCompressed cv v) \<noteq> None)"
  by (induction vs arbitrary: bs) (auto simp: Let_def and_then_Inr ValidCompressedPoint_def split: if_splits)

lemma ParseCommitmentPoints_length: "ParseCommitmentPoints cv cs = Inr ps \<Longrightarrow> length ps = length cs"
  by (induction cs arbitrary: ps) (auto simp: and_then_Inr split: option.splits)

lemma by_dealer_Some:
  "by_dealer cv degree ds m = Some pts \<Longrightarrow>
    \<exists>d\<in>set ds. pd_Dealer d = m \<and> length (pd_Commitments d) = degree \<and> ParseCommitmentPoints cv (pd_Commitments d) = Inr pts"
proof -
  have gen: "foldl (\<lambda>f d. if length (pd_Commitments d) \<noteq> degree then f
      else case ParseCommitmentPoints cv (pd_Commitments d) of Inl _ \<Rightarrow> f | Inr pts \<Rightarrow> f(pd_Dealer d \<mapsto> pts)) g ds m = Some pts \<Longrightarrow>
    g m = Some pts \<or> (\<exists>d\<in>set ds. pd_Dealer d = m \<and> length (pd_Commitments d) = degree \<and>
      ParseCommitmentPoints cv (pd_Commitments d) = Inr pts)" for g
    by (induction ds arbitrary: g) (fastforce split: if_splits sum.splits)+
  assume "by_dealer cv degree ds m = Some pts"
  with gen [of Map.empty] show ?thesis by (simp add: by_dealer_def)
qed

lemma FinalizePublicWeighted_ok:
  assumes "FinalizePublicWeighted cv members t ds disq weightOf w = Inr res"
  shows "0 < t"
    and "i \<in> set (res_Qual res) \<Longrightarrow> by_dealer cv t ds i \<noteq> None \<and> i \<in> set members \<and> i \<notin> set disq"
    and "distinct members \<Longrightarrow> distinct (res_Qual res)"
    and "w \<le> sum_list (map (memberWeight weightOf) (res_Qual res))"
    and "compress_all cv (map (\<lambda>j. add_points (map (\<lambda>i. the (by_dealer cv t ds i) ! j) (res_Qual res))) [0..<t]) =
      Inr (res_PublicCommitments res)"
    and "res_Pub res = res_PublicCommitments res ! 0"
proof -
  let ?q = "filter (\<lambda>m. by_dealer cv t ds m \<noteq> None \<and> m \<notin> set disq) (sort members)"
  obtain vbz where t: "0 < t" and w: "w \<le> sum_list (map (memberWeight weightOf) ?q)"
    and c: "compress_all cv (map (\<lambda>j. add_points (map (\<lambda>i. the (by_dealer cv t ds i) ! j) ?q)) [0..<t]) = Inr vbz"
    and r: "res = \<lparr>res_Pub = vbz ! 0, res_PublicCommitments = vbz, res_Qual = ?q,
      res_Disqualified = filter (\<lambda>m. \<not> (by_dealer cv t ds m \<noteq> None \<and> m \<notin> set disq)) (sort members)\<rparr>"
    using assms unfolding FinalizePublicWeighted_def Let_def
    by (simp only: and_then_Inr split: if_splits) auto
  show "0 < t" by (rule t)
  show "i \<in> set (res_Qual res) \<Longrightarrow> by_dealer cv t ds i \<noteq> None \<and> i \<in> set members \<and> i \<notin> set disq" by (simp add: r)
  show "distinct members \<Longrightarrow> distinct (res_Qual res)" by (simp add: r)
  show "w \<le> sum_list (map (memberWeight weightOf) (res_Qual res))" using w by (simp add: r)
  show "compress_all cv (map (\<lambda>j. add_points (map (\<lambda>i. the (by_dealer cv t ds i) ! j) (res_Qual res))) [0..<t]) =
      Inr (res_PublicCommitments res)" using c by (simp add: r)
  show "res_Pub res = res_PublicCommitments res ! 0" by (simp add: r)
qed

context secp256k1
begin

text \<open>
  A dealing commits to the polynomial \<open>f\<close> of its dealer; every list of points does so for some
  polynomial, as the base generates the group.
\<close>

lemma finalize_commitments:
  assumes fin: "FinalizePublicWeighted cv members t ds disq weightOf w = Inr res"
    and poly: "\<And>d pts. d \<in> set ds \<Longrightarrow> ParseCommitmentPoints cv (pd_Commitments d) = Inr pts \<Longrightarrow> pts = commit_to (f (pd_Dealer d))"
  shows "\<exists>C. length C = t \<and> 0 < t \<and> ParseCommitmentPoints cv (res_PublicCommitments res) = Inr (commit_to C) \<and>
    res_Pub res = SerializeCompressed cv (ScalarBaseMult cv (C ! 0)) \<and> C ! 0 \<noteq> 0 \<and>
    (\<forall>m. evalPoly C m = (\<Sum>i\<leftarrow>res_Qual res. evalPoly (f i) m))"
proof -
  let ?bd = "by_dealer cv t ds" and ?q = "res_Qual res"
  let ?V = "map (\<lambda>j. add_points (map (\<lambda>i. the (?bd i) ! j) ?q)) [0..<t]"
  note fin_ok = FinalizePublicWeighted_ok [OF fin]
  have q: "?bd i \<noteq> None" if "i \<in> set ?q" for i using fin_ok(2) [OF that] by blast
  have d: "?bd i = Some (commit_to (f i)) \<and> length (f i) = t" if iq: "i \<in> set ?q" for i
  proof -
    obtain pts where p: "?bd i = Some pts" using q [OF iq] by blast
    from by_dealer_Some [OF p] obtain d where d: "d \<in> set ds" "pd_Dealer d = i" "length (pd_Commitments d) = t"
      "ParseCommitmentPoints cv (pd_Commitments d) = Inr pts" by blast
    then have "pts = commit_to (f i)" using poly by blast
    with p ParseCommitmentPoints_length [OF d(4)] d(3) show ?thesis by simp
  qed
  define C where "C = map (\<lambda>j. \<Sum>i\<leftarrow>?q. f i ! j) [0..<t]"
  have V: "?V = commit_to C"
  proof (rule nth_equalityI)
    fix j assume "j < length ?V"
    then have j: "j < t" by simp
    have eq: "map (\<lambda>i. the (?bd i) ! j) ?q = map (\<lambda>i. ScalarBaseMult cv (f i ! j)) ?q" using d j by auto
    have "?V ! j = add_points (map (\<lambda>i. the (?bd i) ! j) ?q)" using j by simp
    also have "\<dots> = (\<Sum>i\<leftarrow>?q. ScalarBaseMult cv (f i ! j))" unfolding eq add_points_eq ..
    also have "\<dots> = commit_to C ! j" using j by (simp add: C_def smult_sum)
    finally show "?V ! j = commit_to C ! j" .
  qed (simp add: C_def)
  note ok = compress_all_ok [OF fin_ok(5) [unfolded V]]
  have nz: "0 \<notin> set (commit_to C)" using ok parse_inf by metis
  have len: "length C = t" by (simp add: C_def)
  have "ScalarBaseMult cv (C ! 0) \<in> set (commit_to C)" using fin_ok(1) len by simp
  then have c0: "C ! 0 \<noteq> 0" using nz by (metis smult_0)
  have "ParseCommitmentPoints cv (res_PublicCommitments res) = Inr (commit_to C)" using ok parse_commitments [OF nz] by metis
  moreover have "evalPoly C m = (\<Sum>i\<leftarrow>?q. evalPoly (f i) m)" for m
    unfolding evalPoly_eq C_def by (rule peval_sum_polys) (use d in blast)
  moreover have "res_Pub res = SerializeCompressed cv (ScalarBaseMult cv (C ! 0))"
    unfolding fin_ok(6) using ok fin_ok(1) len by simp
  ultimately show ?thesis using len fin_ok(1) c0 by blast
qed

lemma encrypt_decrypts:
  assumes "EncryptWithR cv (SerializeCompressed cv (ScalarBaseMult cv x)) msg r nonce = Inr ct"
    and "x \<noteq> 0" and "r \<noteq> 0" and "length nonce = NonceSize"
  shows "\<exists>a. ParsePubKey cv (ct_A ct) = Some a \<and> Decrypt cv (ScalarMult cv x a) ct = Inr msg"
proof -
  have "ScalarBaseMult cv x \<noteq> 0" "ScalarBaseMult cv r \<noteq> 0" using assms(2,3) base by (simp_all add: smult_eq_0)
  with assms show ?thesis
    by (auto simp: EncryptWithR_def Let_def parse_ser Decrypt_def smult_mult mult.commute gcm)
qed

lemma share_key_cached:
  assumes "cachedKey i \<noteq> [] \<longrightarrow> (\<exists>y. SharePubKey cv comm i = Some y \<and> cachedKey i = SerializeCompressed cv y)"
  shows "share_key cv comm cachedKey i = SharePubKey cv comm i"
proof (cases "cachedKey i = []")
  case False
  then obtain y where "SharePubKey cv comm i = Some y" "cachedKey i = SerializeCompressed cv y" using assms by blast
  then show ?thesis using parse_ser [of y] parse_inf by (cases "y = 0") (auto simp: share_key_def)
qed (simp add: share_key_def)

text \<open>Recovery from a mixed bag of partial shares.\<close>

lemma recover_verified:
  assumes C: "length C = t" "0 < t"
    and right: "\<And>s p. (s, p) \<in> set ps \<Longrightarrow> takes cv (commit_to C) A ck pv (s, p) \<Longrightarrow>
      ParsePubKey cv (ds_D s) = Some (ScalarMult cv (evalPoly C (ds_Index s)) a)"
    and enough: "t \<le> card {ds_Index s |s p. (s, p) \<in> set ps \<and> takes cv (commit_to C) A ck pv (s, p)}"
  shows "RecoverVerifiedWithKeys cv (commit_to C) A t ps ck pv = Inr (ScalarMult cv (peval C 0) a)"
proof -
  let ?r = "collect_good cv (commit_to C) A t ck pv [] ps"
  have len: "length ?r = t" by (rule collect_good_enough [OF C(2) enough])
  have "Recover cv ?r = Inr (ScalarMult cv (peval C 0) a)"
  proof (rule Recover_shares)
    show "distinct (map ds_Index ?r)" by (rule collect_good_distinct) simp
    fix s assume "s \<in> set ?r"
    then obtain p where "(s, p) \<in> set ps" "takes cv (commit_to C) A ck pv (s, p)"
      using collect_good_taken [of s cv "commit_to C" A t ck pv "[]" ps] by auto
    then show "ds_Index s < 2 ^ 32" "ParsePubKey cv (ds_D s) = Some (ScalarMult cv (evalPoly C (ds_Index s)) a)"
      using right by (auto simp: takes_def)
  qed (use len C in auto)
  then show ?thesis using len C by (auto simp: RecoverVerifiedWithKeys_def Let_def)
qed

end

subsection \<open>A concrete instance\<close>

text \<open>The rationals as scalars and as points, with a hash and a cipher that do nothing.\<close>

definition enc_rat :: "rat \<Rightarrow> bytes" where
  "enc_rat r = (case quotient_of r of (n, d) \<Rightarrow> [if n < 0 then 1 else 0, nat \<bar>n\<bar>, nat d])"

definition dec_rat :: "bytes \<Rightarrow> rat" where
  "dec_rat b = (if b ! 0 = 1 then - of_nat (b ! 1) else of_nat (b ! 1)) / of_nat (b ! 2)"

definition rat_curve :: "(rat, rat) curve" where
  "rat_curve = \<lparr>ScalarMult = (*), Base = 1, SerializeCompressed = enc_rat,
     ParsePubKey = (\<lambda>b. if length b < 3 \<or> dec_rat b = 0 then None else Some (dec_rat b)),
     scalar_Bytes = (\<lambda>x. enc_rat x @ replicate 29 0), SetBytes = (\<lambda>b. (dec_rat b, False)),
     Sum256 = (\<lambda>b. b), gcm_Seal = (\<lambda>k n m. m), gcm_Open = (\<lambda>k n m. Some m)\<rparr>"

lemma dec_enc_rat: "dec_rat (enc_rat r @ bs) = r"
proof -
  obtain n d where q: "quotient_of r = (n, d)" by (cases "quotient_of r")
  then have "0 < d" and r: "r = of_int n / of_int d"
    using quotient_of_denom_pos quotient_of_div by blast+
  have "(of_nat (nat \<bar>n\<bar>) :: rat) = of_int \<bar>n\<bar>" "(of_nat (nat d) :: rat) = of_int d"
    using \<open>0 < d\<close> by (simp_all add: of_nat_nat)
  moreover have "enc_rat r = [if n < 0 then 1 else 0, nat \<bar>n\<bar>, nat d]" by (simp add: enc_rat_def q)
  ultimately show ?thesis by (simp add: dec_rat_def r)
qed

lemma length_enc_rat [simp]: "length (enc_rat r) = 3"
  by (simp add: enc_rat_def split: prod.splits)

interpretation rats: secp256k1 rat_curve
  by unfold_locales
    (use dec_enc_rat [of _ "[]"] in \<open>auto simp: rat_curve_def dec_enc_rat algebra_simps split: if_splits\<close>)

subsection \<open>Properties\<close>

text \<open>
  (C6) The key generation and threshold encryption fit together. A round is finalised from dealings
  that commit to the polynomials \<open>f\<close>; a message is encrypted to its public key; the partial
  shares handed to recovery contain correct ones for at least \<open>t\<close> different points, among any
  others of which those that pass the proof check are right. Then recovery returns a secret that
  decrypts the message: bad partial shares neither block recovery nor change its result.
\<close>

theorem finalized_key_decrypts:
  assumes "secp256k1 cv" and "FinalizePublicWeighted cv members t ds disq weightOf w = Inr res"
    and "\<forall>d\<in>set ds. \<forall>pts. ParseCommitmentPoints cv (pd_Commitments d) = Inr pts \<longrightarrow>
      pts = map (ScalarBaseMult cv) (f (pd_Dealer d))"
    and "ParseCommitmentPoints cv (res_PublicCommitments res) = Inr comm"
    and "EncryptWithR cv (res_Pub res) msg r nonce = Inr ct" and "r \<noteq> 0" and "length nonce = NonceSize"
    and "\<forall>i. cachedKey i \<noteq> [] \<longrightarrow> (\<exists>y. SharePubKey cv comm i = Some y \<and> cachedKey i = SerializeCompressed cv y)"
    and "distinct js" and "set js \<subseteq> {1..<2 ^ 32}" and "t \<le> length js"
    and "\<forall>j\<in>set js. \<exists>s proof. (s, proof) \<in> set partials \<and>
      ProveDecryptShare cv \<lparr>ks_Index = j, Xi = (\<Sum>i\<leftarrow>res_Qual res. evalPoly (f i) j)\<rparr> ct = Some (Inr (s, proof))"
    and "\<forall>(s, proof)\<in>set partials. \<forall>a y. ParsePubKey cv (ct_A ct) = Some a \<and> SharePubKey cv comm (ds_Index s) = Some y \<and>
      (preVerified (ds_Index s) \<or> VerifyDecryptShare cv (ct_A ct) s y proof) \<longrightarrow>
      ParsePubKey cv (ds_D s) = Some (ScalarMult cv (\<Sum>i\<leftarrow>res_Qual res. evalPoly (f i) (ds_Index s)) a)"
  shows "\<exists>S. RecoverVerifiedWithKeys cv comm (ct_A ct) t partials cachedKey preVerified = Inr S \<and> Decrypt cv S ct = Inr msg"
proof -
  note secp = secp256k1.finalize_commitments secp256k1.encrypt_decrypts secp256k1.recover_verified
  obtain C where C: "length C = t" "0 < t" "ParseCommitmentPoints cv (res_PublicCommitments res) = Inr (map (ScalarBaseMult cv) C)"
    "res_Pub res = SerializeCompressed cv (ScalarBaseMult cv (C ! 0))" "C ! 0 \<noteq> 0"
    and eval: "\<And>m. evalPoly C m = (\<Sum>i\<leftarrow>res_Qual res. evalPoly (f i) m)"
    using secp256k1.finalize_commitments [OF assms(1,2), of f] assms(3) by blast
  have comm: "comm = map (ScalarBaseMult cv) C" and ne: "C \<noteq> []" using C assms(4) by auto
  obtain a where a: "ParsePubKey cv (ct_A ct) = Some a" and dec: "Decrypt cv (ScalarMult cv (C ! 0) a) ct = Inr msg"
    using secp256k1.encrypt_decrypts [OF assms(1) assms(5) [unfolded C(4)] C(5) assms(6,7)] by blast
  have spk: "SharePubKey cv comm i = Some (ScalarBaseMult cv (evalPoly C i))" for i
    unfolding comm by (rule secp256k1.SharePubKey_commit [OF assms(1) ne])
  have takes: "takes cv comm (ct_A ct) cachedKey preVerified (s, p) \<longleftrightarrow> 1 \<le> ds_Index s \<and> ds_Index s < 2 ^ 32 \<and>
      (preVerified (ds_Index s) \<or> VerifyDecryptShare cv (ct_A ct) s (ScalarBaseMult cv (evalPoly C (ds_Index s))) p)" for s p
    using secp256k1.share_key_cached [OF assms(1), of cachedKey "ds_Index s" comm] assms(8) by (simp add: takes_def spk)
  have honest: "j \<in> {ds_Index s |s p. (s, p) \<in> set partials \<and> takes cv comm (ct_A ct) cachedKey preVerified (s, p)}"
    if j: "j \<in> set js" for j
  proof -
    obtain s p where sp: "(s, p) \<in> set partials"
      and pr: "ProveDecryptShare cv \<lparr>ks_Index = j, Xi = evalPoly C j\<rparr> ct = Some (Inr (s, p))"
      using assms(12) j unfolding eval by blast
    have "ds_Index s = j" using secp256k1.prove_parts [OF assms(1) pr] by auto
    moreover have "takes cv comm (ct_A ct) cachedKey preVerified (s, p)"
      using secp256k1.prove_verifies [OF assms(1) pr] \<open>ds_Index s = j\<close> assms(10) j unfolding takes by auto
    ultimately show ?thesis using sp by blast
  qed
  let ?I = "{ds_Index s |s p. (s, p) \<in> set partials \<and> takes cv comm (ct_A ct) cachedKey preVerified (s, p)}"
  have "finite ?I" by (rule finite_subset [of _ "(\<lambda>(s, p). ds_Index s) ` set partials"]) auto
  then have "card (set js) \<le> card ?I" by (rule card_mono) (use honest in blast)
  then have "t \<le> card ?I" using assms(9,11) by (simp add: distinct_card)
  moreover have "ParsePubKey cv (ds_D s) = Some (ScalarMult cv (evalPoly C (ds_Index s)) a)"
    if "(s, p) \<in> set partials" "takes cv comm (ct_A ct) cachedKey preVerified (s, p)" for s p
    using assms(13) that a spk unfolding takes eval by fastforce
  ultimately have "RecoverVerifiedWithKeys cv comm (ct_A ct) t partials cachedKey preVerified = Inr (ScalarMult cv (peval C 0) a)"
    unfolding comm by (intro secp256k1.recover_verified [OF assms(1) C(1,2)])
  moreover have "peval C 0 = C ! 0" using ne by (cases C) auto
  ultimately show ?thesis using dec by auto
qed

definition sample_poly :: "nat \<Rightarrow> rat list" where
  "sample_poly i = (if i = 1 then [2, 3] else [1, 4])"

definition sample_dealings :: "public_dealing list" where
  "sample_dealings = [\<lparr>pd_Dealer = 1, pd_Commitments = [enc_rat 2, enc_rat 3]\<rparr>, \<lparr>pd_Dealer = 2, pd_Commitments = [enc_rat 1, enc_rat 4]\<rparr>]"

definition sample_result :: public_result where
  "sample_result = \<lparr>res_Pub = enc_rat 3, res_PublicCommitments = [enc_rat 3, enc_rat 7], res_Qual = [1, 2], res_Disqualified = []\<rparr>"

definition sample_ct :: ciphertext where
  "sample_ct = \<lparr>ct_A = enc_rat 5, ct_Nonce = replicate 12 0, ct_Body = [42]\<rparr>"

definition sample_partial :: "nat \<Rightarrow> rat \<Rightarrow> decrypt_share \<times> rat dleq_proof" where
  "sample_partial i x = (\<lparr>ds_Index = i, ds_D = enc_rat (5 * x)\<rparr>, \<lparr>dleq_C = 105 / 109, dleq_Z = 105 / 109 * (1 + x)\<rparr>)"

lemma rat_parse [simp]: "ParsePubKey rat_curve (enc_rat x) = (if x = 0 then None else Some x)"
  using dec_enc_rat [of x "[]"] by (simp add: rat_curve_def)

lemma rat_challenge [simp]: "dleqChallenge rat_curve i a d y t1 t2 = 105 / 109"
  by (simp add: dleqChallenge_def rat_curve_def str_bytes_def dec_rat_def)

lemma rat_nonce [simp]: "deriveDLEQNonce rat_curve i x a d y = Some (105 / 109)"
proof -
  have "nonce_hash rat_curve (nonce_prefix rat_curve i x a d y) c = (105 / 109, False)" for c
    by (simp add: nonce_hash_def nonce_prefix_def rat_curve_def str_bytes_def dec_rat_def)
  then show ?thesis unfolding deriveDLEQNonce_def by (subst nonce_loop.simps) simp
qed

lemma rat_ops: "ScalarMult rat_curve = (*)" "Base rat_curve = 1" "SerializeCompressed rat_curve = enc_rat"
  by (simp_all add: rat_curve_def)

lemma sample_proves: "x \<noteq> 0 \<Longrightarrow>
    ProveDecryptShare rat_curve \<lparr>ks_Index = i, Xi = x\<rparr> sample_ct = Some (Inr (sample_partial i x))"
  by (simp add: ProveDecryptShare_def ComputeShare_def sample_ct_def Let_def rat_ops sample_partial_def algebra_simps)

theorem finalized_key_decrypts_witness:
  "\<exists>S. RecoverVerifiedWithKeys rat_curve [3, 7] (enc_rat 5) 2 [sample_partial 1 10, sample_partial 2 17] (\<lambda>_. []) (\<lambda>_. False) = Inr S \<and>
    Decrypt rat_curve S sample_ct = Inr [42]"
proof -
  have fin: "FinalizePublicWeighted rat_curve [1, 2] 2 sample_dealings [] (\<lambda>_. Some 1) 2 = Inr sample_result" by code_simp
  have enc: "EncryptWithR rat_curve (res_Pub sample_result) [42] 5 (replicate 12 0) = Inr sample_ct" by code_simp
  have comm: "ParseCommitmentPoints rat_curve (res_PublicCommitments sample_result) = Inr [3, 7]" by code_simp
  have x: "(\<Sum>i\<leftarrow>res_Qual sample_result. evalPoly (sample_poly i) 1) = 10"
    "(\<Sum>i\<leftarrow>res_Qual sample_result. evalPoly (sample_poly i) 2) = 17"
    by (simp_all add: sample_result_def sample_poly_def evalPoly_eq scalarFromUint_id)
  have "\<exists>S. RecoverVerifiedWithKeys rat_curve [3, 7] (ct_A sample_ct) 2 [sample_partial 1 10, sample_partial 2 17] (\<lambda>_. []) (\<lambda>_. False) = Inr S \<and>
    Decrypt rat_curve S sample_ct = Inr [42]"
  proof (rule finalized_key_decrypts [where f = sample_poly and js = "[1, 2]", OF rats.secp256k1_axioms fin _ comm enc])
    show "\<forall>d\<in>set sample_dealings. \<forall>pts. ParseCommitmentPoints rat_curve (pd_Commitments d) = Inr pts \<longrightarrow>
      pts = map (ScalarBaseMult rat_curve) (sample_poly (pd_Dealer d))"
      by (simp add: sample_dealings_def sample_poly_def) (simp add: rat_curve_def)
    show "\<forall>j\<in>set [1, 2]. \<exists>s proof. (s, proof) \<in> set [sample_partial 1 10, sample_partial 2 17] \<and>
      ProveDecryptShare rat_curve \<lparr>ks_Index = j, Xi = \<Sum>i\<leftarrow>res_Qual sample_result. evalPoly (sample_poly i) j\<rparr> sample_ct =
        Some (Inr (s, proof))"
      using sample_proves [of 10 1] sample_proves [of 17 2] by (auto simp: x [unfolded One_nat_def] sample_partial_def)
    show "\<forall>(s, proof)\<in>set [sample_partial 1 10, sample_partial 2 17]. \<forall>a y.
      ParsePubKey rat_curve (ct_A sample_ct) = Some a \<and> SharePubKey rat_curve [3, 7] (ds_Index s) = Some y \<and>
      (False \<or> VerifyDecryptShare rat_curve (ct_A sample_ct) s y proof) \<longrightarrow>
      ParsePubKey rat_curve (ds_D s) = Some (ScalarMult rat_curve (\<Sum>i\<leftarrow>res_Qual sample_result. evalPoly (sample_poly i) (ds_Index s)) a)"
      using x [unfolded One_nat_def] by (auto simp: sample_partial_def sample_ct_def rat_ops)
  qed simp_all
  then show ?thesis by (simp add: sample_ct_def)
qed

text \<open>The commitments the verifier recomputes from a proof.\<close>

definition prover_commitments ::
    "('f :: field, 'g :: ab_group_add) curve \<Rightarrow> 'g \<Rightarrow> 'g \<Rightarrow> 'g \<Rightarrow> 'f dleq_proof \<Rightarrow> 'g \<times> 'g" where
  "prover_commitments cv a d y p =
    (ScalarBaseMult cv (dleq_Z p) + ScalarMult cv (- dleq_C p) y, ScalarMult cv (dleq_Z p) a + ScalarMult cv (- dleq_C p) d)"

context secp256k1
begin

lemma complaint_verdict:
  assumes "cs \<noteq> []" and "0 \<notin> set cs" and "encPriv \<noteq> 0" and "r \<noteq> 0" and "length nonce = NonceSize"
    and enc: "EncryptShareTo cv (SerializeCompressed cv (ScalarBaseMult cv encPriv)) share r nonce = Inr ct"
    and prove: "ProveDecryptShare cv \<lparr>ks_Index = i, Xi = encPriv\<rparr> ct = Some (Inr (ds, pf))"
  shows "VerifyJustifiedComplaint cv i (SerializeCompressed cv (ScalarBaseMult cv encPriv))
    (map (\<lambda>c. SerializeCompressed cv (ScalarBaseMult cv c)) cs) (ct_A ct) (ct_Nonce ct) (ct_Body ct)
    (ds_D ds) (MarshalDLEQProof cv pf) = (share \<noteq> evalPoly cs i, True)"
proof -
  have y: "ParsePubKey cv (SerializeCompressed cv (ScalarBaseMult cv encPriv)) = Some (ScalarBaseMult cv encPriv)"
    using assms(3) base by (intro parse_ser) (simp add: smult_eq_0)
  obtain a where a: "ParsePubKey cv (ct_A ct) = Some a" and ds: "ds_Index ds = i"
    and D: "ParsePubKey cv (ds_D ds) = Some (ScalarMult cv encPriv a)"
    using prove_parts [OF prove] by auto
  then have ds_eq: "\<lparr>ds_Index = i, ds_D = ds_D ds\<rparr> = ds" by simp
  have dec: "Decrypt cv (ScalarMult cv encPriv a) ct = Inr (scalar_Bytes cv share)"
    using encrypt_decrypts [OF enc [unfolded EncryptShareTo_def] assms(3-5)] a by auto
  have n: "length (ct_Nonce ct) = NonceSize"
    using enc assms(5) by (auto simp: EncryptShareTo_def EncryptWithR_def Let_def split: option.splits)
  have comm: "ParseCommitmentPoints cv (map (\<lambda>c. SerializeCompressed cv (ScalarBaseMult cv c)) cs) = Inr (commit_to cs)"
  proof -
    have "0 \<notin> set (commit_to cs)" using assms(2) base by (auto simp: smult_eq_0 dest: sym)
    from parse_commitments [OF this] show ?thesis by (simp add: o_def)
  qed
  have eta: "\<lparr>ct_A = ct_A ct, ct_Nonce = ct_Nonce ct, ct_Body = ct_Body ct\<rparr> = ct" by simp
  have "Decrypt cv (ScalarMult cv encPriv a) \<lparr>ct_A = ct_A ct, ct_Nonce = ct_Nonce ct, ct_Body = ct_Body ct\<rparr> =
      Inr (scalar_Bytes cv share)" by (subst eta) (rule dec)
  with prove_verifies [OF prove] show ?thesis
    by (simp add: VerifyJustifiedComplaint_def a n y dleq_roundtrip ds_eq D scalar_len comm scalar_read
        VerifyShare_iff assms(1))
qed

lemma forced_challenge:
  assumes "d \<noteq> ScalarMult cv x a"
    and "prover_commitments cv a d (ScalarBaseMult cv x) p = prover_commitments cv a d (ScalarBaseMult cv x) q"
  shows "dleq_C p = dleq_C q"
proof (rule ccontr)
  assume n: "dleq_C p \<noteq> dleq_C q"
  let ?e = "(dleq_Z p - dleq_Z q) * inverse (dleq_C p - dleq_C q)"
  have "ScalarBaseMult cv x = ScalarBaseMult cv ?e" and "d = ScalarMult cv ?e a"
    using assms(2) by (auto simp: prover_commitments_def intro!: dleq_extract [OF n])
  then show False using assms(1) by (simp add: smult_inj [OF base])
qed

end

text \<open>
  (C15) A truthful complaint convicts a dealer exactly when it cheated: for a share sealed to the
  accuser, with the accuser's real shared point and its proof, the verdict is that the proof is
  valid, and that the dealer cheated if and only if the share differs from the committed
  polynomial at the accuser's point.
\<close>

theorem complaint_exact:
  assumes "secp256k1 cv" and "cs \<noteq> []" and "0 \<notin> set cs"
    and "encPriv \<noteq> 0" and "r \<noteq> 0" and "length nonce = NonceSize"
    and "EncryptShareTo cv (SerializeCompressed cv (ScalarBaseMult cv encPriv)) share r nonce = Inr ct"
    and "ProveDecryptShare cv \<lparr>ks_Index = evalPoint, Xi = encPriv\<rparr> ct = Some (Inr (ds, pf))"
  shows "VerifyJustifiedComplaint cv evalPoint (SerializeCompressed cv (ScalarBaseMult cv encPriv))
    (map (\<lambda>c. SerializeCompressed cv (ScalarBaseMult cv c)) cs) (ct_A ct) (ct_Nonce ct) (ct_Body ct)
    (ds_D ds) (MarshalDLEQProof cv pf) = (share \<noteq> evalPoly cs evalPoint, True)"
  by (rule secp256k1.complaint_verdict [OF assms])

theorem complaint_exact_witness:
  "VerifyJustifiedComplaint rat_curve 3 (enc_rat 7) [enc_rat 2, enc_rat 3] (enc_rat 5) (replicate 12 0)
     (enc_rat 11 @ replicate 29 0) (enc_rat 35) (MarshalDLEQProof rat_curve (snd (sample_partial 3 7))) = (False, True) \<and>
   VerifyJustifiedComplaint rat_curve 3 (enc_rat 7) [enc_rat 2, enc_rat 3] (enc_rat 5) (replicate 12 0)
     (enc_rat 12 @ replicate 29 0) (enc_rat 35) (MarshalDLEQProof rat_curve (snd (sample_partial 3 7))) = (True, True)"
proof -
  let ?ct = "\<lambda>x. \<lparr>ct_A = enc_rat 5, ct_Nonce = replicate 12 0, ct_Body = enc_rat x @ replicate 29 0\<rparr>"
  have e: "EncryptShareTo rat_curve (SerializeCompressed rat_curve (ScalarBaseMult rat_curve 7)) x 5 (replicate 12 0) = Inr (?ct x)" for x
    by (simp add: EncryptShareTo_def EncryptWithR_def rat_ops Let_def) (simp add: rat_curve_def)
  have p: "ProveDecryptShare rat_curve \<lparr>ks_Index = 3, Xi = 7\<rparr> (?ct x) = Some (Inr (sample_partial 3 7))" for x
    by (simp add: ProveDecryptShare_def ComputeShare_def Let_def rat_ops sample_partial_def)
  have v: "evalPoly [2, 3] 3 = (11 :: rat)" by (simp add: evalPoly_eq scalarFromUint_id)
  show ?thesis
    using complaint_exact [OF rats.secp256k1_axioms _ _ _ _ _ e [of 11] p [of 11, unfolded sample_partial_def], of "[2, 3]"]
      complaint_exact [OF rats.secp256k1_axioms _ _ _ _ _ e [of 12] p [of 12, unfolded sample_partial_def], of "[2, 3]"]
    by (simp add: v rat_ops sample_partial_def)
qed

text \<open>
  (C28) An honest member's decryption share comes with a proof that survives its 64-byte encoding
  and is accepted under the member's public share key.
\<close>

theorem proof_accepted:
  assumes "secp256k1 cv" and "ProveDecryptShare cv share ct = Some (Inr (ds, pf))"
  shows "\<exists>pf'. ParseDLEQProof cv (MarshalDLEQProof cv pf) = Inr pf' \<and>
    VerifyDecryptShare cv (ct_A ct) ds (ScalarBaseMult cv (Xi share)) pf'"
  using secp256k1.dleq_roundtrip [OF assms(1)] secp256k1.prove_verifies [OF assms] by blast

theorem proof_accepted_witness:
  "\<exists>pf'. ParseDLEQProof rat_curve (MarshalDLEQProof rat_curve (snd (sample_partial 2 17))) = Inr pf' \<and>
    VerifyDecryptShare rat_curve (enc_rat 5) \<lparr>ds_Index = 2, ds_D = enc_rat 85\<rparr> 17 pf'"
  using proof_accepted [OF rats.secp256k1_axioms sample_proves [of 17 2, unfolded sample_partial_def]]
  by (simp add: sample_ct_def rat_ops sample_partial_def)

text \<open>
  (C32) The search for the proof's nonce ends: as soon as one of the 2^32 counter values hashes to a
  canonical non-zero scalar, proving a share that can be computed returns a proof.
\<close>

theorem proving_returns:
  assumes "secp256k1 cv" and "ParsePubKey cv (ct_A ct) = Some a" and "Xi share \<noteq> 0" and "ctr < 2 ^ 32"
    and "nonce_hash cv (nonce_prefix cv (ks_Index share) (Xi share) a (ScalarMult cv (Xi share) a) (ScalarBaseMult cv (Xi share))) ctr = (k, False)"
    and "k \<noteq> 0"
  shows "\<exists>ds pf. ProveDecryptShare cv share ct = Some (Inr (ds, pf))"
proof -
  obtain k' where "deriveDLEQNonce cv (ks_Index share) (Xi share) a (ScalarMult cv (Xi share) a) (ScalarBaseMult cv (Xi share)) = Some k'"
    using nonce_loop_returns [OF assms(4), of cv, unfolded fst_conv snd_conv] assms(5,6) unfolding deriveDLEQNonce_def
    by (metis fst_conv snd_conv)
  moreover have "ScalarMult cv (Xi share) a \<noteq> 0"
    using assms(3) secp256k1.parse_point [OF assms(1,2)] by (simp add: secp256k1.smult_eq_0 [OF assms(1)])
  ultimately show ?thesis
    by (simp add: ProveDecryptShare_def ComputeShare_def assms(2) secp256k1.parse_ser [OF assms(1)] Let_def)
qed

theorem proving_returns_witness:
  "\<exists>ds pf. ProveDecryptShare rat_curve \<lparr>ks_Index = 1, Xi = 2\<rparr> sample_ct = Some (Inr (ds, pf))"
proof (rule proving_returns [OF rats.secp256k1_axioms, where a = 5 and ctr = 0 and k = "105 / 109"])
  show "nonce_hash rat_curve (nonce_prefix rat_curve (ks_Index \<lparr>ks_Index = 1, Xi = 2\<rparr>) (Xi \<lparr>ks_Index = 1, Xi = 2\<rparr>) 5
      (ScalarMult rat_curve (Xi \<lparr>ks_Index = 1, Xi = 2\<rparr>) 5) (ScalarBaseMult rat_curve (Xi \<lparr>ks_Index = 1, Xi = 2\<rparr>))) 0 = (105 / 109, False)"
    by (simp add: nonce_hash_def nonce_prefix_def rat_curve_def str_bytes_def dec_rat_def)
qed (simp_all add: sample_ct_def)



end
