(* ===== verification/Spec2Isabelle.thy ===== *)
theory Spec2Isabelle
  imports Prelude KVStore Sdk Squeeze EncTypes StakeWeight SponsorPool Contest GasSponsor NetCap VPCap ValGrant EncParams Threshold
begin

text \<open>
  Limonata is a Cosmos-SDK chain with an EVM. Most of the repository is the upstream EVM stack;
  what is specific to the chain are the modules under \<^verbatim>\<open>src/x/\<close> listed below, and these are
  modelled here. Every module keeps its state in a key-value store, moves coins through the bank
  keeper and runs at fixed points of a block; the modules meet in the bank (they share module
  accounts such as the gas pool) and in the staking module (voting power, committees).

  \<^bold>\<open>Foundations.\<close>
  \<^item> \<open>Prelude\<close>: Go errors as values of \<open>go_error + 'a\<close>, \<open>int64\<close> and \<open>uint64\<close> arithmetic as wrap-around
    on \<open>int\<close> and \<open>nat\<close> (\<open>wrap64\<close>, \<open>u64\<close>), truncated division \<open>quo\<close>, a JSON value in a store, and the
    locale \<open>params_store\<close> that each module's parameter pair interprets.
  \<^item> \<open>KVStore\<close>: the byte-level keys the keepers build (\<open>u64\<close>, \<open>concat\<close>, \<open>prefixEnd\<close>), their order, and
    ordered tables with the locale \<open>ordered_store\<close>, interpreted by the association lists of the model.
  \<^item> \<open>Sdk\<close>: what the modules call in the SDK, as parameters: a bank as a record of operations, with the
    locale \<open>bank_keeper\<close> for its documented laws and the ledger \<open>ledger_bank\<close> as an instance; the
    decimal codec; the module-account permissions of \<^verbatim>\<open>evmd/config/permissions.go\<close>.

  \<^bold>\<open>Modules, one theory each.\<close> Definitions carry the names of the Go functions; where two modules use
  the same name, the module's name is a suffix.
  \<^item> \<open>Squeeze\<close> (\<^verbatim>\<open>x/squeeze\<close>): the split of the collected fees at the start of a block. It conserves the
    fees, and every validated split leaves the fee collector between 30 and 70 per cent.
  \<^item> \<open>SponsorPool\<close> (\<^verbatim>\<open>x/sponsorpool\<close> and its precompile): escrow that pays the gas of one contract. The
    books balance after every run of operations; \<open>Reserve\<close> is characterised exactly.
  \<^item> \<open>Contest\<close> (\<^verbatim>\<open>x/contest\<close>): activity of testers, the daily roll-up, the snapshot and the allocation.
    Days are credited once, the allocation pays exactly the budget, the snapshot is final.
  \<^item> \<open>GasSponsor\<close> (\<^verbatim>\<open>x/gassponsor\<close>): which fees the gas pool pays and its refill. All caps hold over every
    run, and the refill mints exactly the deficit or what the daily cap leaves.
  \<^item> \<open>NetCap\<close> (\<^verbatim>\<open>x/netcap\<close> and \<^verbatim>\<open>ante/netcap_evm.go\<close>): the net-seller cap over tumbling windows.
  \<^item> \<open>VPCap\<close> (\<^verbatim>\<open>x/vpcap\<close>): the voting-power cap and the updates sent to the consensus engine.
  \<^item> \<open>ValGrant\<close> (\<^verbatim>\<open>x/valgrant\<close>): validator grants, clawback with its deferred sweep, the pool burn, the
    decentralisation metrics, authority checks and genesis.

  \<^bold>\<open>The encrypted mempool\<close> (\<^verbatim>\<open>x/encmempool\<close>).
  \<^item> \<open>EncTypes\<close>: committee members, rounds and installed keys (\<^verbatim>\<open>types/types.go\<close>).
  \<^item> \<open>StakeWeight\<close> (\<^verbatim>\<open>keeper/stakeweight.go\<close>): apportionment of Shamir points by stake, thresholds, and the
    concentration guard, whose dynamic programme is proved exact against coalitions as sets.
  \<^item> \<open>EncParams\<close> (\<^verbatim>\<open>types/types.go\<close>): all parameters and everything that validation of parameters and of a
    genesis checks, with what a validated genesis and validated parameters guarantee.
  \<^item> \<open>Threshold\<close> (\<^verbatim>\<open>threshold/\<close>, \<^verbatim>\<open>dkg/\<close>): encryption, key generation, complaints, proofs of correct
    decryption and recovery, over an abstract prime-order group (locale \<open>secp256k1\<close>, with an instance
    over the rationals that shows the laws can hold together).

  \<^bold>\<open>Parameters and bounds.\<close> Hash functions, point encodings, address codecs, staking queries and the
  EVM are parameters; a property that relies on their behaviour names it as a hypothesis and has a
  witness with a concrete instance. Go maps whose iteration order could matter are modelled with the
  order as an argument, and properties hold for every order. The only search without a fixed bound is
  the nonce search of a proof, a \<open>partial_function\<close> with a theorem for when it returns; every other
  loop is a total function. Nothing uses fuel.

  \<^bold>\<open>Not modelled.\<close> Events, logging and telemetry; protobuf, ABI and command-line plumbing; the EVM
  itself, JSON-RPC, the node-local transaction pool, IBC and the ERC-20 conversions, which are
  upstream code around go-ethereum and ibc-go; the off-chain daemon of a validator.
\<close>

end
